theory Spec2Isabelle
  imports Main "HOL-Library.Word" "HOL-Library.AList" "HOL-Library.List_Lexorder" "HOL-Library.Product_Lexorder"
begin

unbundle bit_operations_syntax

section \<open>Bytes, words and the FNV-1a hash\<close>

type_synonym byte = "8 word"
type_synonym u32 = "32 word"

text \<open>A Python \<open>str\<close> is a sequence of Unicode code points; \<open>bytes\<close> is a sequence of bytes.\<close>

type_synonym pystr = "nat list"
type_synonym bytes = "byte list"

definition FNV_PRIME_32 :: u32 where
  "FNV_PRIME_32 = 0x01000193"

definition FNV_OFFSET_BASIS_32 :: u32 where
  "FNV_OFFSET_BASIS_32 = 0x811C9DC5"

text \<open>
  \<open>fnv1a_32\<close>: the loop \<open>hash_val = (hash_val ^ byte) * FNV_PRIME_32; hash_val &= 0xFFFFFFFF\<close>.
  The running value is masked to 32 bits after every step, so it is a \<open>32 word\<close>.
\<close>

fun fnv1a_32_loop :: "u32 \<Rightarrow> bytes \<Rightarrow> u32" where
  "fnv1a_32_loop hash_val [] = hash_val"
| "fnv1a_32_loop hash_val (b # data) = fnv1a_32_loop ((hash_val XOR ucast b) * FNV_PRIME_32) data"

definition fnv1a_32 :: "bytes \<Rightarrow> u32" where
  "fnv1a_32 data = fnv1a_32_loop FNV_OFFSET_BASIS_32 data"

section \<open>Resource container flags (\<open>rsc_flag\<close>)\<close>

text \<open>
  \<open>rsc_flag\<close> overlays a little-endian bit-field structure on one \<open>c_uint\<close>. Fields are
  allocated from the least significant bit: four 1-bit flags (bits 0..3), a 7-bit count
  (bits 4..10), a 4-bit page-size exponent (bits 11..14), the same five fields again for the
  physical pages (bits 15..29) and 2 unused bits.
\<close>

record rsc_flag =
  flags :: u32

definition bitfield :: "nat \<Rightarrow> nat \<Rightarrow> u32 \<Rightarrow> nat" where
  "bitfield lo width v = unat (take_bit width (drop_bit lo v))"

definition virtual1xPageFlag :: "rsc_flag \<Rightarrow> nat" where
  "virtual1xPageFlag f = bitfield 0 1 (flags f)"

definition virtual2xPageFlag :: "rsc_flag \<Rightarrow> nat" where
  "virtual2xPageFlag f = bitfield 1 1 (flags f)"

definition virtual4xPageFlag :: "rsc_flag \<Rightarrow> nat" where
  "virtual4xPageFlag f = bitfield 2 1 (flags f)"

definition virtual8xPageFlag :: "rsc_flag \<Rightarrow> nat" where
  "virtual8xPageFlag f = bitfield 3 1 (flags f)"

definition virtual16xPageCount :: "rsc_flag \<Rightarrow> nat" where
  "virtual16xPageCount f = bitfield 4 7 (flags f)"

definition virtual1xPageSize :: "rsc_flag \<Rightarrow> nat" where
  "virtual1xPageSize f = bitfield 11 4 (flags f)"

definition physical1xPageFlag :: "rsc_flag \<Rightarrow> nat" where
  "physical1xPageFlag f = bitfield 15 1 (flags f)"

definition physical2xPageFlag :: "rsc_flag \<Rightarrow> nat" where
  "physical2xPageFlag f = bitfield 16 1 (flags f)"

definition physical4xPageFlag :: "rsc_flag \<Rightarrow> nat" where
  "physical4xPageFlag f = bitfield 17 1 (flags f)"

definition physical8xPageFlag :: "rsc_flag \<Rightarrow> nat" where
  "physical8xPageFlag f = bitfield 18 1 (flags f)"

definition physical16xPageCount :: "rsc_flag \<Rightarrow> nat" where
  "physical16xPageCount f = bitfield 19 7 (flags f)"

definition physical1xPageSize :: "rsc_flag \<Rightarrow> nat" where
  "physical1xPageSize f = bitfield 26 4 (flags f)"

text \<open>The four size methods. Python integers do not overflow; every quantity is non-negative.\<close>

definition GetVirtualPageSize :: "rsc_flag \<Rightarrow> nat" where
  "GetVirtualPageSize f = push_bit (virtual1xPageSize f + 8) 1"

definition GetPhysicalPageSize :: "rsc_flag \<Rightarrow> nat" where
  "GetPhysicalPageSize f = push_bit (physical1xPageSize f + 8) 1"

definition GetVirtualSize :: "rsc_flag \<Rightarrow> nat" where
  "GetVirtualSize f = GetVirtualPageSize f *
     (virtual1xPageFlag f * 1 + virtual2xPageFlag f * 2 + virtual4xPageFlag f * 4 +
      virtual8xPageFlag f * 8 + virtual16xPageCount f * 16)"

definition GetPhysicalSize :: "rsc_flag \<Rightarrow> nat" where
  "GetPhysicalSize f = GetPhysicalPageSize f *
     (physical1xPageFlag f * 1 + physical2xPageFlag f * 2 + physical4xPageFlag f * 4 +
      physical8xPageFlag f * 8 + physical16xPageCount f * 16)"

text \<open>
  \<open>UnpackWhm\<close> after inflation: the expected size is the sum of the two region sizes, and the
  inflated data are zero-padded or truncated to it. The inflated bytes are the input here.
\<close>

definition uncompressed_size :: "rsc_flag \<Rightarrow> nat" where
  "uncompressed_size f = GetVirtualSize f + GetPhysicalSize f"

definition UnpackWhm_resize :: "rsc_flag \<Rightarrow> bytes \<Rightarrow> bytes" where
  "UnpackWhm_resize f uncompressed_data_bytes =
     (if length uncompressed_data_bytes \<noteq> uncompressed_size f then
        (if length uncompressed_data_bytes < uncompressed_size f
         then uncompressed_data_bytes @
              replicate (uncompressed_size f - length uncompressed_data_bytes) 0
         else take (uncompressed_size f) uncompressed_data_bytes)
      else uncompressed_data_bytes)"

section \<open>Tagged references into the arena (\<open>pgPtr\<close>, \<open>pgObjectArray\<close>)\<close>

datatype ptr_element_type = Cpu_Type | Gpu_Type

fun ptr_element_value :: "ptr_element_type \<Rightarrow> nat" where
  "ptr_element_value Cpu_Type = 5"
| "ptr_element_value Gpu_Type = 6"

record pgPtr =
  pg_value :: u32

definition pgPtr_o :: "pgPtr \<Rightarrow> nat" where
  "pgPtr_o self = unat (pg_value self AND 0x0FFFFFFF)"

definition pgPtr_t :: "pgPtr \<Rightarrow> nat" where
  "pgPtr_t self = unat (drop_bit 28 (pg_value self) AND 0xF)"

text \<open>
  The structure type handed to \<open>locate\<close>: \<open>c_char\<close> asks for the null-terminated string at
  the offset; any other ctypes structure is overlaid with \<open>from_buffer\<close>, which raises
  \<open>ValueError\<close> unless \<open>sizeof\<close> bytes are available from the offset on.
\<close>

datatype ctype = C_char | Struct nat

datatype located = Bytes bytes | StructAt nat

definition from_buffer :: "bytes \<Rightarrow> nat \<Rightarrow> nat \<Rightarrow> nat option" where
  "from_buffer block off sz = (if off + sz \<le> length block then Some off else None)"

text \<open>The scan \<open>for i in range(offset, len(block)): if block[i] == 0: end = i; break\<close>.\<close>

fun scan_null :: "bytes \<Rightarrow> nat \<Rightarrow> nat option" where
  "scan_null [] i = None"
| "scan_null (b # bs) i = (if b = 0 then Some i else scan_null bs (Suc i))"

definition slice :: "'a list \<Rightarrow> nat \<Rightarrow> nat \<Rightarrow> 'a list" where
  "slice xs lo hi = take (hi - lo) (drop lo xs)"

definition locate :: "pgPtr \<Rightarrow> bytes \<Rightarrow> ctype \<Rightarrow> located option" where
  "locate self block struct_type =
     (if block = [] \<or> pgPtr_t self \<noteq> ptr_element_value Cpu_Type then None
      else if pgPtr_o self \<ge> length block then None
      else (case struct_type of
              C_char \<Rightarrow>
                (case scan_null (drop (pgPtr_o self) block) (pgPtr_o self) of
                   None \<Rightarrow> None
                 | Some end_pos \<Rightarrow> Some (Bytes (slice block (pgPtr_o self) end_pos)))
            | Struct sz \<Rightarrow>
                (case from_buffer block (pgPtr_o self) sz of
                   None \<Rightarrow> None
                 | Some off \<Rightarrow> Some (StructAt off))))"

record pgObjectArray =
  ptr_value :: u32
  arr_count :: "16 word"
  arr_size :: "16 word"

definition pgObjectArray_o :: "pgObjectArray \<Rightarrow> nat" where
  "pgObjectArray_o self = unat (ptr_value self AND 0x0FFFFFFF)"

definition pgObjectArray_t :: "pgObjectArray \<Rightarrow> nat" where
  "pgObjectArray_t self = unat (drop_bit 28 (ptr_value self) AND 0xF)"

text \<open>What the walker prints to \<open>stderr\<close>.\<close>

datatype diag =
    SpanOutOfBounds nat nat nat nat nat
  | SpanElementError nat
  | UnknownNodeType nat
  | NoBodyNode
  | DocumentError

text \<open>
  The element loop of \<open>get_span\<close>: every element is a view at \<open>offset + i * element_size\<close>;
  a failing \<open>from_buffer\<close> prints a warning and leaves the loop.
\<close>

fun span_loop :: "bytes \<Rightarrow> nat \<Rightarrow> nat \<Rightarrow> nat list \<Rightarrow> nat list \<times> diag list" where
  "span_loop block offset element_size [] = ([], [])"
| "span_loop block offset element_size (i # rest) =
     (case from_buffer block (offset + i * element_size) element_size of
        None \<Rightarrow> ([], [SpanElementError i])
      | Some element \<Rightarrow>
          (case span_loop block offset element_size rest of
             (span, out) \<Rightarrow> (element # span, out)))"

definition get_span :: "pgObjectArray \<Rightarrow> bytes \<Rightarrow> nat \<Rightarrow> nat list \<times> diag list" where
  "get_span self block element_size =
     (if block = [] \<or> pgObjectArray_t self \<noteq> ptr_element_value Cpu_Type then ([], [])
      else
        let offset = pgObjectArray_o self;
            num_elements = max (unat (arr_count self)) (unat (arr_size self))
        in if offset + num_elements * element_size > length block then
             (let num_elements = unat (arr_count self)
              in if offset + num_elements * element_size > length block
                 then ([], [SpanOutOfBounds offset (unat (arr_count self)) (unat (arr_size self))
                              element_size (length block)])
                 else span_loop block offset element_size [0..<num_elements])
           else span_loop block offset element_size [0..<num_elements])"

section \<open>The HTML node tree in the arena\<close>

text \<open>
  Little-endian field readers. A ctypes view reads its fields from the arena on access;
  a view obtained from \<open>from_buffer\<close> always has \<open>sizeof\<close> bytes behind it.
\<close>

definition le_value :: "bytes \<Rightarrow> nat" where
  "le_value bs = foldr (\<lambda>b acc. unat b + 256 * acc) bs 0"

definition read_u32 :: "bytes \<Rightarrow> nat \<Rightarrow> u32 option" where
  "read_u32 block off =
     (if off + 4 \<le> length block then Some (of_nat (le_value (slice block off (off + 4)))) else None)"

definition read_u16 :: "bytes \<Rightarrow> nat \<Rightarrow> 16 word option" where
  "read_u16 block off =
     (if off + 2 \<le> length block then Some (of_nat (le_value (slice block off (off + 2)))) else None)"

datatype HtmlNodeType =
  Node_HtmlNode | Node_HtmlDataNode | Node_HtmlTableNode | Node_HtmlTableElementNode

text \<open>\<open>HtmlNodeType(n)\<close> raises \<open>ValueError\<close> for a value that is no member of the enumeration.\<close>

definition HtmlNodeType_of :: "u32 \<Rightarrow> HtmlNodeType option" where
  "HtmlNodeType_of n =
     (if n = 0 then Some Node_HtmlNode
      else if n = 1 then Some Node_HtmlDataNode
      else if n = 2 then Some Node_HtmlTableNode
      else if n = 3 then Some Node_HtmlTableElementNode
      else None)"

text \<open>
  \<open>CHtmlNode\<close>: \<open>vtbl\<close> at 0, \<open>m_eNodeType\<close> at 4, \<open>m_pParentNode\<close> at 8, \<open>m_children\<close>
  (pointer, 16-bit count, 16-bit size) at 12, \<open>m_renderState\<close> (196 bytes) at 20;
  216 bytes in all. \<open>CHtmlDataNode\<close> appends \<open>m_pData\<close> at 216.
\<close>

definition sizeof_CHtmlNode :: nat where
  "sizeof_CHtmlNode = 216"

definition sizeof_pgPtr :: nat where
  "sizeof_pgPtr = 4"

record CHtmlNode =
  vtbl :: u32
  m_eNodeType :: u32
  m_pParentNode :: pgPtr
  m_children :: pgObjectArray

definition CHtmlNode_at :: "bytes \<Rightarrow> nat \<Rightarrow> CHtmlNode option" where
  "CHtmlNode_at block off =
     (if off + sizeof_CHtmlNode \<le> length block then
        (case (read_u32 block off, read_u32 block (off + 4), read_u32 block (off + 8),
               read_u32 block (off + 12), read_u16 block (off + 16), read_u16 block (off + 18)) of
           (Some v, Some k, Some p, Some c, Some n, Some s) \<Rightarrow>
             Some \<lparr>vtbl = v, m_eNodeType = k, m_pParentNode = \<lparr>pg_value = p\<rparr>,
                   m_children = \<lparr>ptr_value = c, arr_count = n, arr_size = s\<rparr>\<rparr>
         | _ \<Rightarrow> None)
      else None)"

definition pgPtr_at :: "bytes \<Rightarrow> nat \<Rightarrow> pgPtr option" where
  "pgPtr_at block off = map_option (\<lambda>v. \<lparr>pg_value = v\<rparr>) (read_u32 block off)"

section \<open>The string walker\<close>

record 'a ExportedTextEntry =
  hash :: nat
  str :: 'a

definition validate_digit_char :: "byte \<Rightarrow> bool" where
  "validate_digit_char c \<longleftrightarrow> 0x30 \<le> c \<and> c \<le> 0x39"

definition validate_english_char :: "byte \<Rightarrow> bool" where
  "validate_english_char c \<longleftrightarrow> (0x61 \<le> c \<and> c \<le> 0x7A) \<or> (0x41 \<le> c \<and> c \<le> 0x5A)"

definition validate_efigs_char :: "byte \<Rightarrow> bool" where
  "validate_efigs_char c \<longleftrightarrow> validate_english_char c \<or> c \<ge> 0xC0"

definition validate_url_char :: "byte \<Rightarrow> bool" where
  "validate_url_char c \<longleftrightarrow>
     validate_english_char c \<or> validate_digit_char c \<or>
     c = 0x2E \<or> c = 0x25 \<or> c = 0x40 \<or> c = 0x2D \<or> c = 0x5F"

text \<open>\<open>bytes.find\<close> and \<open>bytes.rfind\<close> for a single byte: the index, or \<open>-1\<close>.\<close>

fun find_from :: "byte \<Rightarrow> bytes \<Rightarrow> int \<Rightarrow> int" where
  "find_from c [] i = -1"
| "find_from c (x # xs) i = (if x = c then i else find_from c xs (i + 1))"

definition bytes_find :: "bytes \<Rightarrow> byte \<Rightarrow> int" where
  "bytes_find view c = find_from c view 0"

definition bytes_rfind :: "bytes \<Rightarrow> byte \<Rightarrow> int" where
  "bytes_rfind view c =
     (let k = find_from c (rev view) 0
      in if k = -1 then -1 else int (length view) - 1 - k)"

definition validate_url :: "bytes \<Rightarrow> bool" where
  "validate_url view =
     (if view = [] then False
      else if \<not> list_all validate_url_char view then False
      else (let first_dot_pos = bytes_find view 0x2E;
                last_dot_pos = bytes_rfind view 0x2E
            in first_dot_pos \<noteq> -1 \<and> first_dot_pos \<noteq> 0 \<and>
               last_dot_pos \<noteq> int (length view) - 1))"

definition validate_string :: "bytes \<Rightarrow> bool" where
  "validate_string view \<longleftrightarrow> list_ex validate_efigs_char view \<and> \<not> validate_url view"

text \<open>
  \<open>TryAppendString\<close> mutates the container and the per-run hash set; the model returns both.
\<close>

definition TryAppendString ::
  "bytes ExportedTextEntry list \<Rightarrow> bytes \<Rightarrow> nat set \<Rightarrow> bytes ExportedTextEntry list \<times> nat set" where
  "TryAppendString container ptr hashes =
     (if ptr = [] then (container, hashes)
      else if validate_string ptr then
        (let hash_val = unat (fnv1a_32 ptr)
         in if hash_val \<notin> hashes
            then (container @ [\<lparr>hash = hash_val, str = ptr\<rparr>], insert hash_val hashes)
            else (container, hashes))
      else (container, hashes))"

text \<open>
  The state threaded through the walk: the container and the hash set (both mutated in
  place by the source), the lines printed to \<open>stderr\<close>, and how the walk stands.
  \<open>RecursionError\<close> is Python's bound on the call depth; \<open>ReadOutsideArena\<close> marks the one
  read the source does without a bounds check (the cast of a 216-byte node view to
  \<open>CHtmlDataNode\<close>, whose \<open>m_pData\<close> lies 216 bytes behind the view's start).
\<close>

datatype status = Running | RecursionError | ReadOutsideArena

record walk =
  container :: "bytes ExportedTextEntry list"
  hashes :: "nat set"
  stderr :: "diag list"
  state :: status

text \<open>The part of \<open>ExtractNodeStrings\<close> after the children: classify the node itself.\<close>

definition classify_node :: "bytes \<Rightarrow> nat \<Rightarrow> CHtmlNode \<Rightarrow> walk \<Rightarrow> walk" where
  "classify_node block off node w =
     (case HtmlNodeType_of (m_eNodeType node) of
        None \<Rightarrow> w\<lparr>stderr := stderr w @ [UnknownNodeType (unat (m_eNodeType node))]\<rparr>
      | Some Node_HtmlDataNode \<Rightarrow>
          (case pgPtr_at block (off + sizeof_CHtmlNode) of
             None \<Rightarrow> w\<lparr>state := ReadOutsideArena\<rparr>
           | Some m_pData \<Rightarrow>
               (case locate m_pData block C_char of
                  Some (Bytes data_bytes) \<Rightarrow>
                    (if data_bytes \<noteq> [] then
                       (case TryAppendString (container w) data_bytes (hashes w) of
                          (c, h) \<Rightarrow> w\<lparr>container := c, hashes := h\<rparr>)
                     else w)
                | _ \<Rightarrow> w))
      | Some _ \<Rightarrow> w)"

text \<open>
  \<open>ExtractNodeStrings\<close>: the children first, then the node's own kind. The first argument
  bounds the depth of the recursion; at depth 0 the call raises \<open>RecursionError\<close>, which no
  frame of the walk catches. A node is the offset of its view in the arena.
\<close>

fun ExtractNodeStrings :: "nat \<Rightarrow> nat option \<Rightarrow> bytes \<Rightarrow> walk \<Rightarrow> walk"
  and walk_children :: "nat \<Rightarrow> nat list \<Rightarrow> bytes \<Rightarrow> walk \<Rightarrow> walk" where
  "ExtractNodeStrings 0 node block w = w\<lparr>state := RecursionError\<rparr>"
| "ExtractNodeStrings (Suc depth) None block w = w"
| "ExtractNodeStrings (Suc depth) (Some off) block w =
     (case CHtmlNode_at block off of
        None \<Rightarrow> w\<lparr>state := ReadOutsideArena\<rparr>
      | Some node \<Rightarrow>
          (case get_span (m_children node) block sizeof_pgPtr of
             (span, out) \<Rightarrow>
               (let w1 = walk_children depth span block (w\<lparr>stderr := stderr w @ out\<rparr>)
                in if state w1 \<noteq> Running then w1 else classify_node block off node w1)))"
| "walk_children depth [] block w = w"
| "walk_children depth (element # rest) block w =
     (case pgPtr_at block element of
        None \<Rightarrow> w\<lparr>state := ReadOutsideArena\<rparr>
      | Some element_ptr \<Rightarrow>
          (case locate element_ptr block (Struct sizeof_CHtmlNode) of
             Some (StructAt child_node) \<Rightarrow>
               (let w1 = ExtractNodeStrings depth (Some child_node) block w
                in if state w1 \<noteq> Running then w1 else walk_children depth rest block w1)
           | _ \<Rightarrow> walk_children depth rest block w))"

text \<open>
  \<open>ExtractWhmStrings\<close> on an unpacked arena: \<open>CHtmlDocument\<close> is 44 bytes with \<open>m_pBody\<close> at
  offset 4; every exception of the walk is caught and reported here.
\<close>

definition sizeof_CHtmlDocument :: nat where
  "sizeof_CHtmlDocument = 44"

definition ExtractWhmStrings :: "nat \<Rightarrow> bytes option \<Rightarrow> nat set \<Rightarrow> walk" where
  "ExtractWhmStrings depth block hashes0 =
     (let w = \<lparr>container = [], hashes = hashes0, stderr = [], state = Running\<rparr>
      in case block of
           None \<Rightarrow> w
         | Some block \<Rightarrow>
             (if block = [] then w
              else case from_buffer block 0 sizeof_CHtmlDocument of
                     None \<Rightarrow> w\<lparr>stderr := [DocumentError]\<rparr>
                   | Some p_doc \<Rightarrow>
                       (case pgPtr_at block (p_doc + 4) of
                          None \<Rightarrow> w\<lparr>stderr := [DocumentError]\<rparr>
                        | Some m_pBody \<Rightarrow>
                            (case locate m_pBody block (Struct sizeof_CHtmlNode) of
                               Some (StructAt body_node) \<Rightarrow>
                                 (let w1 = ExtractNodeStrings depth (Some body_node) block w
                                  in if state w1 = RecursionError
                                     then w1\<lparr>stderr := stderr w1 @ [DocumentError]\<rparr>
                                     else w1)
                             | _ \<Rightarrow> w\<lparr>stderr := [NoBodyNode]\<rparr>))))"

section \<open>The editable text ledger (\<open>LoadText\<close>)\<close>

text \<open>\<open>str.isspace\<close>, which decides what \<open>str.strip\<close> removes.\<close>

definition py_isspace :: "nat \<Rightarrow> bool" where
  "py_isspace c \<longleftrightarrow>
     (0x9 \<le> c \<and> c \<le> 0xD) \<or> (0x1C \<le> c \<and> c \<le> 0x20) \<or> c = 0x85 \<or> c = 0xA0 \<or>
     c = 0x1680 \<or> (0x2000 \<le> c \<and> c \<le> 0x200A) \<or> c = 0x2028 \<or> c = 0x2029 \<or>
     c = 0x202F \<or> c = 0x205F \<or> c = 0x3000"

definition strip :: "pystr \<Rightarrow> pystr" where
  "strip s = rev (dropWhile py_isspace (rev (dropWhile py_isspace s)))"

definition is_hex_digit :: "nat \<Rightarrow> bool" where
  "is_hex_digit c \<longleftrightarrow> (0x30 \<le> c \<and> c \<le> 0x39) \<or> (0x61 \<le> c \<and> c \<le> 0x66) \<or> (0x41 \<le> c \<and> c \<le> 0x46)"

definition hex_digit_value :: "nat \<Rightarrow> nat" where
  "hex_digit_value c =
     (if 0x30 \<le> c \<and> c \<le> 0x39 then c - 0x30
      else if 0x61 \<le> c \<and> c \<le> 0x66 then c - 0x61 + 10
      else c - 0x41 + 10)"

text \<open>\<open>int(s, 16)\<close> on a string of hexadecimal digits.\<close>

definition int_hex :: "pystr \<Rightarrow> nat" where
  "int_hex s = foldl (\<lambda>acc c. 16 * acc + hex_digit_value c) 0 s"

text \<open>
  \<open>entry_regex.match(line)\<close> for \<open>(0[xX][0-9a-fA-F]{8})=(.*)\<close>: the two groups. The match
  is anchored at the start only, and \<open>.\<close> stops at a line feed.
\<close>

definition entry_regex_match :: "pystr \<Rightarrow> (pystr \<times> pystr) option" where
  "entry_regex_match line =
     (if 11 \<le> length line \<and> line ! 0 = 0x30 \<and> (line ! 1 = 0x78 \<or> line ! 1 = 0x58) \<and>
         list_all is_hex_digit (slice line 2 10) \<and> line ! 10 = 0x3D
      then Some (take 10 line, takeWhile (\<lambda>c. c \<noteq> 0xA) (drop 11 line))
      else None)"

text \<open>\<open>s.replace(old, new)\<close> for a two-character \<open>old\<close> and a one-character \<open>new\<close>.\<close>

fun replace2 :: "nat \<Rightarrow> nat \<Rightarrow> nat \<Rightarrow> pystr \<Rightarrow> pystr" where
  "replace2 a b c (x # y # zs) =
     (if x = a \<and> y = b then c # replace2 a b c zs else x # replace2 a b c (y # zs))"
| "replace2 a b c zs = zs"

definition unescape :: "pystr \<Rightarrow> pystr" where
  "unescape text_str = replace2 0x5C 0x72 0xD (replace2 0x5C 0x6E 0xA text_str)"

text \<open>
  The \<open>windows-1252\<close> codec of the Python library: ASCII and U+00A0..U+00FF map to the
  byte of the same value, 27 further characters map into 0x80..0x9F, every other code
  point raises \<open>UnicodeEncodeError\<close>.
\<close>

definition cp1252_table :: "(nat \<times> byte) list" where
  "cp1252_table =
     [(0x20AC, 0x80), (0x201A, 0x82), (0x0192, 0x83), (0x201E, 0x84), (0x2026, 0x85),
      (0x2020, 0x86), (0x2021, 0x87), (0x02C6, 0x88), (0x2030, 0x89), (0x0160, 0x8A),
      (0x2039, 0x8B), (0x0152, 0x8C), (0x017D, 0x8E), (0x2018, 0x91), (0x2019, 0x92),
      (0x201C, 0x93), (0x201D, 0x94), (0x2022, 0x95), (0x2013, 0x96), (0x2014, 0x97),
      (0x02DC, 0x98), (0x2122, 0x99), (0x0161, 0x9A), (0x203A, 0x9B), (0x0153, 0x9C),
      (0x017E, 0x9E), (0x0178, 0x9F)]"

definition cp1252_encode_char :: "nat \<Rightarrow> byte option" where
  "cp1252_encode_char c =
     (if c < 0x80 \<or> (0xA0 \<le> c \<and> c \<le> 0xFF) then Some (of_nat c) else map_of cp1252_table c)"

fun encode_cp1252 :: "pystr \<Rightarrow> bytes option" where
  "encode_cp1252 [] = Some []"
| "encode_cp1252 (c # cs) =
     (case cp1252_encode_char c of
        None \<Rightarrow> None
      | Some b \<Rightarrow> map_option ((#) b) (encode_cp1252 cs))"

definition IsBlankText :: "pystr \<Rightarrow> bool" where
  "IsBlankText text = list_all (\<lambda>c. c = 0x20 \<or> c = 0x9) text"

text \<open>
  The loop of \<open>LoadText\<close> over the decoded lines of the file, numbered from \<open>line_no\<close>.
  It returns the entries and the numbers of the lines reported as unrecognised.
\<close>

fun LoadText_loop ::
  "nat \<Rightarrow> pystr list \<Rightarrow> pystr ExportedTextEntry list \<Rightarrow> nat list \<Rightarrow>
   pystr ExportedTextEntry list \<times> nat list" where
  "LoadText_loop line_no [] result unrecognised = (result, unrecognised)"
| "LoadText_loop line_no (raw # rest) result unrecognised =
     (let line = strip raw
      in if line = [] \<or> hd line = 0x3B then LoadText_loop (Suc line_no) rest result unrecognised
         else (case entry_regex_match line of
                 Some (group1, group2) \<Rightarrow>
                   (let hash_val = int_hex (drop 2 group1);
                        text_str = unescape group2;
                        text_bytes = (case encode_cp1252 text_str of Some bs \<Rightarrow> bs | None \<Rightarrow> [])
                    in if \<not> IsBlankText text_str \<and> hash_val \<noteq> unat (fnv1a_32 text_bytes)
                       then LoadText_loop (Suc line_no) rest
                              (result @ [\<lparr>hash = hash_val, str = text_str\<rparr>]) unrecognised
                       else LoadText_loop (Suc line_no) rest result unrecognised)
               | None \<Rightarrow> LoadText_loop (Suc line_no) rest result (unrecognised @ [line_no])))"

definition LoadText :: "pystr list \<Rightarrow> pystr ExportedTextEntry list \<times> nat list" where
  "LoadText lines = LoadText_loop 1 lines [] []"

section \<open>The translation database (\<open>whm_table.dat\<close>)\<close>

text \<open>
  The \<open>utf-8\<close> codec of the Python library. Encoding raises \<open>UnicodeEncodeError\<close> on a
  surrogate; with \<open>errors='replace'\<close> such a character becomes \<open>?\<close>.
\<close>

definition utf8_encode_char :: "nat \<Rightarrow> bytes option" where
  "utf8_encode_char c =
     (if c < 0x80 then Some [of_nat c]
      else if c < 0x800 then Some [of_nat (0xC0 + c div 64), of_nat (0x80 + c mod 64)]
      else if c < 0x10000 then
        (if 0xD800 \<le> c \<and> c \<le> 0xDFFF then None
         else Some [of_nat (0xE0 + c div 4096), of_nat (0x80 + c div 64 mod 64),
                    of_nat (0x80 + c mod 64)])
      else if c < 0x110000 then
        Some [of_nat (0xF0 + c div 262144), of_nat (0x80 + c div 4096 mod 64),
              of_nat (0x80 + c div 64 mod 64), of_nat (0x80 + c mod 64)]
      else None)"

fun utf8_encode :: "pystr \<Rightarrow> bytes option" where
  "utf8_encode [] = Some []"
| "utf8_encode (c # cs) =
     (case utf8_encode_char c of
        None \<Rightarrow> None
      | Some bs \<Rightarrow> map_option ((@) bs) (utf8_encode cs))"

definition utf8_encode_replace :: "pystr \<Rightarrow> bytes" where
  "utf8_encode_replace s =
     concat (map (\<lambda>c. case utf8_encode_char c of Some bs \<Rightarrow> bs | None \<Rightarrow> [0x3F]) s)"

definition is_continuation :: "byte \<Rightarrow> bool" where
  "is_continuation b \<longleftrightarrow> 0x80 \<le> unat b \<and> unat b \<le> 0xBF"

text \<open>
  Strict decoding: a lead byte, its continuation bytes, and the rejection of overlong
  forms, surrogates and values above U+10FFFF; \<open>None\<close> is \<open>UnicodeDecodeError\<close>.
\<close>

fun utf8_decode :: "bytes \<Rightarrow> pystr option" where
  "utf8_decode [] = Some []"
| "utf8_decode (b0 # rest) =
     (if unat b0 < 0x80 then map_option ((#) (unat b0)) (utf8_decode rest)
      else if 0xC2 \<le> unat b0 \<and> unat b0 \<le> 0xDF then
        (case rest of
           b1 # r \<Rightarrow>
             (if is_continuation b1
              then map_option ((#) ((unat b0 - 0xC0) * 64 + (unat b1 - 0x80))) (utf8_decode r)
              else None)
         | _ \<Rightarrow> None)
      else if 0xE0 \<le> unat b0 \<and> unat b0 \<le> 0xEF then
        (case rest of
           b1 # b2 # r \<Rightarrow>
             (let c = (unat b0 - 0xE0) * 4096 + (unat b1 - 0x80) * 64 + (unat b2 - 0x80)
              in if is_continuation b1 \<and> is_continuation b2 \<and> 0x800 \<le> c \<and>
                    \<not> (0xD800 \<le> c \<and> c \<le> 0xDFFF)
                 then map_option ((#) c) (utf8_decode r)
                 else None)
         | _ \<Rightarrow> None)
      else if 0xF0 \<le> unat b0 \<and> unat b0 \<le> 0xF4 then
        (case rest of
           b1 # b2 # b3 # r \<Rightarrow>
             (let c = (unat b0 - 0xF0) * 262144 + (unat b1 - 0x80) * 4096 +
                      (unat b2 - 0x80) * 64 + (unat b3 - 0x80)
              in if is_continuation b1 \<and> is_continuation b2 \<and> is_continuation b3 \<and>
                    0x10000 \<le> c \<and> c < 0x110000
                 then map_option ((#) c) (utf8_decode r)
                 else None)
         | _ \<Rightarrow> None)
      else None)"

text \<open>Decoding \<open>cp1252\<close> fails on the five bytes the code page leaves undefined; \<open>latin1\<close> never fails.\<close>

definition cp1252_decode_char :: "byte \<Rightarrow> nat option" where
  "cp1252_decode_char b =
     (if unat b < 0x80 \<or> 0xA0 \<le> unat b then Some (unat b)
      else map_of (map (\<lambda>(c, y). (y, c)) cp1252_table) b)"

fun decode_cp1252 :: "bytes \<Rightarrow> pystr option" where
  "decode_cp1252 [] = Some []"
| "decode_cp1252 (b # bs) =
     (case cp1252_decode_char b of
        None \<Rightarrow> None
      | Some c \<Rightarrow> map_option ((#) c) (decode_cp1252 bs))"

definition decode_bytes :: "bytes \<Rightarrow> pystr" where
  "decode_bytes bts =
     (case utf8_decode bts of
        Some s \<Rightarrow> s
      | None \<Rightarrow> (case decode_cp1252 bts of Some s \<Rightarrow> s | None \<Rightarrow> map unat bts))"

text \<open>\<open>struct.pack("<I", n)\<close>: four little-endian bytes, \<open>struct.error\<close> outside \<open>0 .. 2^32 - 1\<close>.\<close>

fun le_bytes :: "nat \<Rightarrow> nat \<Rightarrow> bytes" where
  "le_bytes 0 n = []"
| "le_bytes (Suc k) n = of_nat (n mod 256) # le_bytes k (n div 256)"

definition pack_I :: "nat \<Rightarrow> bytes option" where
  "pack_I n = (if n < 2 ^ 32 then Some (le_bytes 4 n) else None)"

definition unpack_from_I :: "bytes \<Rightarrow> nat \<Rightarrow> nat option" where
  "unpack_from_I data off =
     (if off + 4 \<le> length data then Some (le_value (slice data off (off + 4))) else None)"

text \<open>\<open>WhmTextData\<close>: two \<open>c_uint\<close> fields; storing a Python integer keeps its low 32 bits.\<close>

record WhmTextData =
  whm_hash :: u32
  whm_offset :: u32

datatype whm_error = StructError | FileTooSmall | TruncatedEntryTable | TruncatedBlobSize

text \<open>The first loop of \<open>GenerateDataBase\<close>: the blob and the entry table.\<close>

fun build_tables ::
  "pystr ExportedTextEntry list \<Rightarrow> WhmTextData list \<Rightarrow> bytes \<Rightarrow> WhmTextData list \<times> bytes" where
  "build_tables [] text_table text_data = (text_table, text_data)"
| "build_tables (entry # rest) text_table text_data =
     (let encoded_str = (case utf8_encode (str entry) of
                           Some bs \<Rightarrow> bs
                         | None \<Rightarrow> utf8_encode_replace (str entry));
          offset = length text_data;
          bin_entry = \<lparr>whm_hash = of_nat (hash entry), whm_offset = of_nat offset\<rparr>
      in build_tables rest (text_table @ [bin_entry]) (text_data @ encoded_str @ [0]))"

text \<open>
  \<open>GenerateDataBase\<close> from the loaded entries on: the bytes written to the output file.
  \<open>struct.error\<close> is not caught by the source and leaves the function.
\<close>

definition GenerateDataBase :: "pystr ExportedTextEntry list \<Rightarrow> whm_error + bytes" where
  "GenerateDataBase texts =
     (case build_tables texts [] [] of
        (text_table, text_data) \<Rightarrow>
          (case pack_I (length text_table) of
             None \<Rightarrow> Inl StructError
           | Some count_bytes \<Rightarrow>
               (case pack_I (length text_data) of
                  None \<Rightarrow> Inl StructError
                | Some size_bytes \<Rightarrow>
                    Inr (count_bytes @
                         concat (map (\<lambda>bin_entry. le_bytes 4 (unat (whm_hash bin_entry)) @
                                                   le_bytes 4 (unat (whm_offset bin_entry)))
                                     text_table) @
                         size_bytes @ text_data))))"

text \<open>The entry-table loop of \<open>ParseWhmTable\<close>: \<open>count\<close> pairs from offset \<open>off\<close> on.\<close>

fun read_entries ::
  "bytes \<Rightarrow> nat \<Rightarrow> nat \<Rightarrow> (nat \<times> nat) list \<Rightarrow> whm_error + ((nat \<times> nat) list \<times> nat)" where
  "read_entries data 0 off entries = Inr (entries, off)"
| "read_entries data (Suc n) off entries =
     (if off + 8 > length data then Inl TruncatedEntryTable
      else (case (unpack_from_I data off, unpack_from_I data (off + 4)) of
              (Some h, Some o_) \<Rightarrow> read_entries data n (off + 8) (entries @ [(h, o_)])
            | _ \<Rightarrow> Inl StructError))"

text \<open>The scan \<open>while j < blob_size and blob[j] != 0: j += 1\<close>.\<close>

function scan_blob :: "bytes \<Rightarrow> nat \<Rightarrow> nat \<Rightarrow> nat" where
  "scan_blob blob blob_size j =
     (if j < blob_size \<and> j < length blob \<and> blob ! j \<noteq> 0 then scan_blob blob blob_size (Suc j)
      else j)"
  by pat_completeness auto
termination
  by (relation "measure (\<lambda>(blob, blob_size, j). blob_size - j)") auto

definition binary_marker :: pystr where
  "binary_marker = [0x5B, 0x4E8C, 0x8FDB, 0x5236, 0x6570, 0x636E, 0x5D]"

definition decode_entry :: "bytes \<Rightarrow> nat \<Rightarrow> nat \<times> nat \<Rightarrow> nat \<times> pystr" where
  "decode_entry blob blob_size e =
     (case e of
        (h, off) \<Rightarrow>
          (if off < blob_size
           then (h, decode_bytes (slice blob off (scan_blob blob blob_size off)))
           else (h, binary_marker)))"

text \<open>\<open>ParseWhmTable\<close> up to the list \<open>results\<close> that is then written out line by line.\<close>

definition ParseWhmTable :: "bytes \<Rightarrow> whm_error + (nat \<times> pystr) list" where
  "ParseWhmTable data =
     (if length data < 4 then Inl FileTooSmall
      else (case unpack_from_I data 0 of
              None \<Rightarrow> Inl StructError
            | Some count \<Rightarrow>
                (case read_entries data count 4 [] of
                   Inl err \<Rightarrow> Inl err
                 | Inr (entries, off) \<Rightarrow>
                     (if off + 4 > length data then Inl TruncatedBlobSize
                      else (case unpack_from_I data off of
                              None \<Rightarrow> Inl StructError
                            | Some declared_size \<Rightarrow>
                                (let blob_start = off + 4;
                                     blob_size = (if blob_start + declared_size > length data
                                                  then length data - blob_start
                                                  else declared_size);
                                     blob = slice data blob_start (blob_start + blob_size)
                                 in Inr (map (decode_entry blob blob_size) entries)))))))"

section \<open>The San Andreas table codec (\<open>SAGXT\<close>)\<close>

definition CRC32_TABLE :: "u32 list" where
  "CRC32_TABLE =
     [
      0x00000000, 0x77073096, 0xEE0E612C, 0x990951BA, 0x076DC419, 0x706AF48F, 0xE963A535, 0x9E6495A3,
      0x0EDB8832, 0x79DCB8A4, 0xE0D5E91E, 0x97D2D988, 0x09B64C2B, 0x7EB17CBD, 0xE7B82D07, 0x90BF1D91,
      0x1DB71064, 0x6AB020F2, 0xF3B97148, 0x84BE41DE, 0x1ADAD47D, 0x6DDDE4EB, 0xF4D4B551, 0x83D385C7,
      0x136C9856, 0x646BA8C0, 0xFD62F97A, 0x8A65C9EC, 0x14015C4F, 0x63066CD9, 0xFA0F3D63, 0x8D080DF5,
      0x3B6E20C8, 0x4C69105E, 0xD56041E4, 0xA2677172, 0x3C03E4D1, 0x4B04D447, 0xD20D85FD, 0xA50AB56B,
      0x35B5A8FA, 0x42B2986C, 0xDBBBC9D6, 0xACBCF940, 0x32D86CE3, 0x45DF5C75, 0xDCD60DCF, 0xABD13D59,
      0x26D930AC, 0x51DE003A, 0xC8D75180, 0xBFD06116, 0x21B4F4B5, 0x56B3C423, 0xCFBA9599, 0xB8BDA50F,
      0x2802B89E, 0x5F058808, 0xC60CD9B2, 0xB10BE924, 0x2F6F7C87, 0x58684C11, 0xC1611DAB, 0xB6662D3D,
      0x76DC4190, 0x01DB7106, 0x98D220BC, 0xEFD5102A, 0x71B18589, 0x06B6B51F, 0x9FBFE4A5, 0xE8B8D433,
      0x7807C9A2, 0x0F00F934, 0x9609A88E, 0xE10E9818, 0x7F6A0DBB, 0x086D3D2D, 0x91646C97, 0xE6635C01,
      0x6B6B51F4, 0x1C6C6162, 0x856530D8, 0xF262004E, 0x6C0695ED, 0x1B01A57B, 0x8208F4C1, 0xF50FC457,
      0x65B0D9C6, 0x12B7E950, 0x8BBEB8EA, 0xFCB9887C, 0x62DD1DDF, 0x15DA2D49, 0x8CD37CF3, 0xFBD44C65,
      0x4DB26158, 0x3AB551CE, 0xA3BC0074, 0xD4BB30E2, 0x4ADFA541, 0x3DD895D7, 0xA4D1C46D, 0xD3D6F4FB,
      0x4369E96A, 0x346ED9FC, 0xAD678846, 0xDA60B8D0, 0x44042D73, 0x33031DE5, 0xAA0A4C5F, 0xDD0D7CC9,
      0x5005713C, 0x270241AA, 0xBE0B1010, 0xC90C2086, 0x5768B525, 0x206F85B3, 0xB966D409, 0xCE61E49F,
      0x5EDEF90E, 0x29D9C998, 0xB0D09822, 0xC7D7A8B4, 0x59B33D17, 0x2EB40D81, 0xB7BD5C3B, 0xC0BA6CAD,
      0xEDB88320, 0x9ABFB3B6, 0x03B6E20C, 0x74B1D29A, 0xEAD54739, 0x9DD277AF, 0x04DB2615, 0x73DC1683,
      0xE3630B12, 0x94643B84, 0x0D6D6A3E, 0x7A6A5AA8, 0xE40ECF0B, 0x9309FF9D, 0x0A00AE27, 0x7D079EB1,
      0xF00F9344, 0x8708A3D2, 0x1E01F268, 0x6906C2FE, 0xF762575D, 0x806567CB, 0x196C3671, 0x6E6B06E7,
      0xFED41B76, 0x89D32BE0, 0x10DA7A5A, 0x67DD4ACC, 0xF9B9DF6F, 0x8EBEEFF9, 0x17B7BE43, 0x60B08ED5,
      0xD6D6A3E8, 0xA1D1937E, 0x38D8C2C4, 0x4FDFF252, 0xD1BB67F1, 0xA6BC5767, 0x3FB506DD, 0x48B2364B,
      0xD80D2BDA, 0xAF0A1B4C, 0x36034AF6, 0x41047A60, 0xDF60EFC3, 0xA867DF55, 0x316E8EEF, 0x4669BE79,
      0xCB61B38C, 0xBC66831A, 0x256FD2A0, 0x5268E236, 0xCC0C7795, 0xBB0B4703, 0x220216B9, 0x5505262F,
      0xC5BA3BBE, 0xB2BD0B28, 0x2BB45A92, 0x5CB36A04, 0xC2D7FFA7, 0xB5D0CF31, 0x2CD99E8B, 0x5BDEAE1D,
      0x9B64C2B0, 0xEC63F226, 0x756AA39C, 0x026D930A, 0x9C0906A9, 0xEB0E363F, 0x72076785, 0x05005713,
      0x95BF4A82, 0xE2B87A14, 0x7BB12BAE, 0x0CB61B38, 0x92D28E9B, 0xE5D5BE0D, 0x7CDCEFB7, 0x0BDBDF21,
      0x86D3D2D4, 0xF1D4E242, 0x68DDB3F8, 0x1FDA836E, 0x81BE16CD, 0xF6B9265B, 0x6FB077E1, 0x18B74777,
      0x88085AE6, 0xFF0F6A70, 0x66063BCA, 0x11010B5C, 0x8F659EFF, 0xF862AE69, 0x616BFFD3, 0x166CCF45,
      0xA00AE278, 0xD70DD2EE, 0x4E048354, 0x3903B3C2, 0xA7672661, 0xD06016F7, 0x4969474D, 0x3E6E77DB,
      0xAED16A4A, 0xD9D65ADC, 0x40DF0B66, 0x37D83BF0, 0xA9BCAE53, 0xDEBB9EC5, 0x47B2CF7F, 0x30B5FFE9,
      0xBDBDF21C, 0xCABAC28A, 0x53B39330, 0x24B4A3A6, 0xBAD03605, 0xCDD70693, 0x54DE5729, 0x23D967BF,
      0xB3667A2E, 0xC4614AB8, 0x5D681B02, 0x2A6F2B94, 0xB40BBE37, 0xC30C8EA1, 0x5A05DF1B, 0x2D02EF8D
     ]"

text \<open>
  \<open>gta_sa_hash\<close>. \<open>str.upper\<close> of one character is a parameter (a table of the Python
  library); it may return several characters, and \<open>ord\<close> then raises \<open>TypeError\<close>.
\<close>

datatype sa_exn = TypeErr | StructErr | UnicodeEncodeErr

fun gta_sa_hash_loop :: "(nat \<Rightarrow> pystr) \<Rightarrow> u32 \<Rightarrow> pystr \<Rightarrow> sa_exn + u32" where
  "gta_sa_hash_loop upper hash_val [] = Inr hash_val"
| "gta_sa_hash_loop upper hash_val (char # key) =
     (case upper char of
        [c_upper] \<Rightarrow>
          (let c_byte = (of_nat c_upper :: u32) AND 0xFF;
               idx = (hash_val XOR c_byte) AND 0xFF
           in gta_sa_hash_loop upper ((CRC32_TABLE ! unat idx) XOR drop_bit 8 hash_val) key)
      | _ \<Rightarrow> Inl TypeErr)"

definition gta_sa_hash :: "(nat \<Rightarrow> pystr) \<Rightarrow> pystr \<Rightarrow> sa_exn + u32" where
  "gta_sa_hash upper key = gta_sa_hash_loop upper 0xFFFFFFFF key"

text \<open>\<open>str.upper\<close> on ASCII; the table names and the keys of the examples are ASCII.\<close>

definition ascii_upper :: "nat \<Rightarrow> pystr" where
  "ascii_upper c = [if 0x61 \<le> c \<and> c \<le> 0x7A then c - 0x20 else c]"

text \<open>
  A dictionary is an association list in insertion order with distinct keys:
  \<open>d[k] = v\<close> is \<open>AList.update k v d\<close>, \<open>k in d\<close> is \<open>map_of d k \<noteq> None\<close>.
\<close>

type_synonym gxt_table = "(nat \<times> pystr) list"
type_synonym gxt_data = "(pystr \<times> gxt_table) list"





definition MAIN :: pystr where
  "MAIN = [0x4D, 0x41, 0x49, 0x4E]"







text \<open>
  The output file of \<open>save_as_gxt\<close>: its bytes by position, its length and the file
  position. A write past the end extends the file; the gap reads as zero bytes.
\<close>

record pyfile =
  content :: "nat \<Rightarrow> byte"
  fsize :: nat
  fpos :: nat

definition f_open :: pyfile where
  "f_open = \<lparr>content = (\<lambda>i. 0), fsize = 0, fpos = 0\<rparr>"

definition f_seek :: "nat \<Rightarrow> pyfile \<Rightarrow> pyfile" where
  "f_seek p f = f\<lparr>fpos := p\<rparr>"

definition f_write :: "bytes \<Rightarrow> pyfile \<Rightarrow> pyfile" where
  "f_write bs f =
     f\<lparr>content := (\<lambda>i. if fpos f \<le> i \<and> i < fpos f + length bs then bs ! (i - fpos f)
                         else content f i),
       fsize := (if bs = [] then fsize f else max (fsize f) (fpos f + length bs)),
       fpos := fpos f + length bs\<rparr>"

definition file_bytes :: "pyfile \<Rightarrow> bytes" where
  "file_bytes f = map (content f) [0..<fsize f]"

text \<open>\<open>struct.pack\<close> of one unsigned 32-bit field: \<open>struct.error\<close> outside \<open>0 .. 2^32 - 1\<close>.\<close>

definition pack_int_I :: "int \<Rightarrow> bytes option" where
  "pack_int_I n = (if 0 \<le> n \<and> n < 2 ^ 32 then Some (le_bytes 4 (nat n)) else None)"

definition ljust8 :: "bytes \<Rightarrow> bytes" where
  "ljust8 bs = bs @ replicate (8 - length bs) 0"

definition encode_ascii_ignore :: "pystr \<Rightarrow> bytes" where
  "encode_ascii_ignore s = map of_nat (filter (\<lambda>c. c < 0x80) s)"

text \<open>\<open>_get_data_block_size\<close>: the encoded length of every text plus its terminator.\<close>

fun get_data_block_size :: "gxt_table \<Rightarrow> sa_exn + nat" where
  "get_data_block_size [] = Inr 0"
| "get_data_block_size ((k, v) # rest) =
     (case utf8_encode v of
        None \<Rightarrow> Inl UnicodeEncodeErr
      | Some enc \<Rightarrow>
          (case get_data_block_size rest of
             Inl e \<Rightarrow> Inl e
           | Inr n \<Rightarrow> Inr (length enc + 1 + n)))"

definition table_sort :: "pystr \<times> gxt_table \<Rightarrow> bool \<times> pystr" where
  "table_sort item = (fst item \<noteq> MAIN, fst item)"

text \<open>
  The inner loop of \<open>save_as_gxt\<close> over the sorted entries of one table: the text goes to
  the data block, then offset and hash go to the key block. It returns the file and
  the position behind the last text.
\<close>

fun write_entries ::
  "(nat \<times> pystr) list \<Rightarrow> nat \<Rightarrow> nat \<Rightarrow> nat \<Rightarrow> pyfile \<Rightarrow> sa_exn + (pyfile \<times> nat)" where
  "write_entries [] tdat_offset current_tdat_data_pos current_tkey_data_pos f =
     Inr (f, current_tdat_data_pos)"
| "write_entries ((hash_key, value) # rest) tdat_offset current_tdat_data_pos
       current_tkey_data_pos f =
     (case utf8_encode value of
        None \<Rightarrow> Inl UnicodeEncodeErr
      | Some enc \<Rightarrow>
          (let f1 = f_write (enc @ [0]) (f_seek current_tdat_data_pos f);
               data_offset = int current_tdat_data_pos - int tdat_offset - 8
           in case (pack_int_I data_offset, pack_int_I (int hash_key)) of
                (Some offset_bytes, Some hash_bytes) \<Rightarrow>
                  write_entries rest tdat_offset (fpos f1) (current_tkey_data_pos + 8)
                    (f_write (offset_bytes @ hash_bytes) (f_seek current_tkey_data_pos f1))
              | _ \<Rightarrow> Inl StructErr))"

text \<open>
  The loop over the sorted tables. The state is the file and the three running offsets
  \<open>fo_table_block\<close>, \<open>fo_key_block\<close> and \<open>key_block_offset\<close>.
\<close>

fun write_tables ::
  "(pystr \<times> gxt_table) list \<Rightarrow> nat \<Rightarrow> nat \<Rightarrow> nat \<Rightarrow> pyfile \<Rightarrow> sa_exn + pyfile" where
  "write_tables [] fo_table_block fo_key_block key_block_offset f = Inr f"
| "write_tables ((table_name, entries) # rest) fo_table_block fo_key_block key_block_offset f =
     (let key_block_size = length entries * 8
      in case get_data_block_size entries of
           Inl e \<Rightarrow> Inl e
         | Inr data_block_size \<Rightarrow>
             (let name_bytes = take 7 (encode_ascii_ignore table_name)
              in case (pack_int_I (int key_block_offset), pack_int_I (int key_block_size),
                       pack_int_I (int data_block_size)) of
                   (Some kbo_bytes, Some kbs_bytes, Some dbs_bytes) \<Rightarrow>
                     (let f1 = f_write kbo_bytes (f_write (ljust8 name_bytes) (f_seek fo_table_block f));
                          f2 = f_seek fo_key_block f1;
                          f3 = (if table_name \<noteq> MAIN then f_write (ljust8 name_bytes) f2 else f2);
                          f4 = f_write kbs_bytes (f_write [0x54, 0x4B, 0x45, 0x59] f3);
                          current_tkey_data_pos = fpos f4;
                          tdat_offset = current_tkey_data_pos + key_block_size;
                          f5 = f_write dbs_bytes
                                 (f_write [0x54, 0x44, 0x41, 0x54] (f_seek tdat_offset f4));
                          current_tdat_data_pos = fpos f5
                      in case write_entries (sort entries) tdat_offset current_tdat_data_pos
                                current_tkey_data_pos f5 of
                           Inl e \<Rightarrow> Inl e
                         | Inr (f6, end_pos) \<Rightarrow>
                             write_tables rest (fo_table_block + 12) end_pos end_pos f6)
                 | _ \<Rightarrow> Inl StructErr))"

text \<open>
  \<open>save_as_gxt\<close>: the file written, or the exception that the source catches and
  reports (the file is then left incomplete).
\<close>

definition SizeOfTABL :: nat where
  "SizeOfTABL = 12"

definition save_as_gxt :: "gxt_data \<Rightarrow> sa_exn + pyfile" where
  "save_as_gxt d =
     (let table_block_size = length d * SizeOfTABL
      in case pack_int_I (int table_block_size) of
           None \<Rightarrow> Inl StructErr
         | Some tbs_bytes \<Rightarrow>
             (let f = f_write tbs_bytes
                        (f_write [0x54, 0x41, 0x42, 0x4C]
                           (f_write (le_bytes 2 8) (f_write (le_bytes 2 4) f_open)))
              in write_tables (sort_key table_sort d) 12 (12 + table_block_size)
                   (12 + table_block_size) f))"

section \<open>Literals\<close>

text \<open>ASCII literals as Python strings and as byte strings.\<close>

definition str_of :: "string \<Rightarrow> pystr" where
  "str_of s = map of_char s"

definition bytes_of :: "string \<Rightarrow> bytes" where
  "bytes_of s = map of_char s"

section \<open>An example arena\<close>

text \<open>
  The image of a \<open>CHtmlNode\<close> with the given kind and children array, and an arena with
  a node of the unknown kind 7 at offset 0 whose only child, at offset 220, is a data
  node with the text \<open>Hello\<close> at offset 440.
\<close>

definition node_image :: "nat \<Rightarrow> nat \<Rightarrow> nat \<Rightarrow> nat \<Rightarrow> bytes" where
  "node_image kind children count capacity =
     le_bytes 4 0 @ le_bytes 4 kind @ le_bytes 4 0 @ le_bytes 4 children @
     le_bytes 2 count @ le_bytes 2 capacity @ replicate 196 0"

definition example_arena :: bytes where
  "example_arena =
     node_image 7 0x500000D8 1 1 @ le_bytes 4 0x500000DC @
     node_image 1 0 0 0 @ le_bytes 4 0x500001B8 @ bytes_of ''Hello'' @ [0]"

definition walk0 :: walk where
  "walk0 = \<lparr>container = [], hashes = {}, stderr = [], state = Running\<rparr>"

definition walk_Hello :: walk where
  "walk_Hello =
     \<lparr>container = [\<lparr>hash = unat (fnv1a_32 (bytes_of ''Hello'')), str = bytes_of ''Hello''\<rparr>],
      hashes = {unat (fnv1a_32 (bytes_of ''Hello''))}, stderr = [], state = Running\<rparr>"

section \<open>Reading the written file back\<close>

text \<open>The \<open>n\<close> bytes of a file from position \<open>p\<close> on.\<close>

definition f_read :: "pyfile \<Rightarrow> nat \<Rightarrow> nat \<Rightarrow> bytes" where
  "f_read f p n = map (content f) [p..<p + n]"

text \<open>
  An example document: the table \<open>MAIN\<close> with two entries, inserted with the larger hash
  first, and the file that \<open>save_as_gxt\<close> writes for it.
\<close>

definition example_gxt :: gxt_data where
  "example_gxt = [(MAIN, [(2, [0x62]), (1, [0x61])])]"

definition example_file :: pyfile where
  "example_file = (case save_as_gxt example_gxt of Inr f \<Rightarrow> f | Inl e \<Rightarrow> f_open)"

section \<open>Properties of the resource container and the tagged references\<close>

lemma bitfield_div_mod: "bitfield lo w v = unat v div 2 ^ lo mod 2 ^ w"
  unfolding bitfield_def unsigned_take_bit_eq unat_drop_bit_eq
  by (simp add: take_bit_eq_mod drop_bit_eq_div)

lemmas rsc_fields = virtual1xPageFlag_def virtual2xPageFlag_def virtual4xPageFlag_def
  virtual8xPageFlag_def virtual16xPageCount_def virtual1xPageSize_def
  physical1xPageFlag_def physical2xPageFlag_def physical4xPageFlag_def
  physical8xPageFlag_def physical16xPageCount_def physical1xPageSize_def

text \<open>
  Claim C9. The page size of a region is \<open>1 << (exponent + 8)\<close>; the size of a region is its
  page size times the weighted sum of its four flags and sixteen times its 7-bit count;
  the fields sit in the packed word where the bit-field structure puts them. For the
  flags word 1 (only \<open>virtual1xPageFlag\<close> set, exponent 0) the virtual size is 256, the
  physical size 0 and the expected decompressed size 256.
\<close>

theorem rsc_flag_size_formula:
  "GetVirtualPageSize f = 2 ^ (virtual1xPageSize f + 8) \<and>
   GetPhysicalPageSize f = 2 ^ (physical1xPageSize f + 8) \<and>
   GetVirtualSize f = GetVirtualPageSize f *
     (1 * virtual1xPageFlag f + 2 * virtual2xPageFlag f + 4 * virtual4xPageFlag f +
      8 * virtual8xPageFlag f + 16 * virtual16xPageCount f) \<and>
   GetPhysicalSize f = GetPhysicalPageSize f *
     (1 * physical1xPageFlag f + 2 * physical2xPageFlag f + 4 * physical4xPageFlag f +
      8 * physical8xPageFlag f + 16 * physical16xPageCount f) \<and>
   uncompressed_size f = GetVirtualSize f + GetPhysicalSize f \<and>
   virtual1xPageFlag f = unat (flags f) mod 2 \<and>
   virtual2xPageFlag f = unat (flags f) div 2 mod 2 \<and>
   virtual4xPageFlag f = unat (flags f) div 4 mod 2 \<and>
   virtual8xPageFlag f = unat (flags f) div 8 mod 2 \<and>
   virtual16xPageCount f = unat (flags f) div 16 mod 128 \<and>
   virtual1xPageSize f = unat (flags f) div 2048 mod 16 \<and>
   physical1xPageFlag f = unat (flags f) div 2 ^ 15 mod 2 \<and>
   physical2xPageFlag f = unat (flags f) div 2 ^ 16 mod 2 \<and>
   physical4xPageFlag f = unat (flags f) div 2 ^ 17 mod 2 \<and>
   physical8xPageFlag f = unat (flags f) div 2 ^ 18 mod 2 \<and>
   physical16xPageCount f = unat (flags f) div 2 ^ 19 mod 128 \<and>
   physical1xPageSize f = unat (flags f) div 2 ^ 26 mod 16 \<and>
   virtual1xPageFlag \<lparr>flags = 1\<rparr> = 1 \<and> virtual1xPageSize \<lparr>flags = 1\<rparr> = 0 \<and>
   GetVirtualSize \<lparr>flags = 1\<rparr> = 256 \<and> GetPhysicalSize \<lparr>flags = 1\<rparr> = 0 \<and>
   uncompressed_size \<lparr>flags = 1\<rparr> = 256"
  by (simp add: GetVirtualPageSize_def GetPhysicalPageSize_def GetVirtualSize_def
      GetPhysicalSize_def uncompressed_size_def rsc_fields bitfield_div_mod push_bit_eq_mult)

lemma and_low28: "unat ((v :: u32) AND 0x0FFFFFFF) = unat v mod 2 ^ 28"
proof -
  have "(0x0FFFFFFF :: u32) = mask 28"
    by (simp add: mask_eq_exp_minus_1)
  then have "v AND 0x0FFFFFFF = take_bit 28 v"
    by (simp only: take_bit_eq_mask)
  then have "unat (v AND 0x0FFFFFFF) = take_bit 28 (unat v)"
    by (simp only: unsigned_take_bit_eq)
  then show ?thesis
    by (simp only: take_bit_eq_mod)
qed

lemma top4: "unat (drop_bit 28 (v :: u32) AND 0xF) = unat v div 2 ^ 28"
proof -
  have "(0xF :: u32) = mask 4"
    by (simp add: mask_eq_exp_minus_1)
  then have "drop_bit 28 v AND 0xF = take_bit 4 (drop_bit 28 v)"
    by (simp only: take_bit_eq_mask)
  then have "unat (drop_bit 28 v AND 0xF) = take_bit 4 (drop_bit 28 (unat v))"
    by (simp only: unsigned_take_bit_eq unat_drop_bit_eq)
  also have "\<dots> = unat v div 2 ^ 28 mod 2 ^ 4"
    by (simp only: take_bit_eq_mod drop_bit_eq_div)
  also have "\<dots> = unat v div 2 ^ 28"
  proof -
    have "unat v < 2 ^ 32"
      using unsigned_less [of v] by simp
    then have "unat v div 2 ^ 28 < 2 ^ 4"
      by (simp add: less_mult_imp_div_less)
    then show ?thesis by simp
  qed
  finally show ?thesis .
qed

lemma pgPtr_t_div: "pgPtr_t p = unat (pg_value p) div 2 ^ 28"
  by (simp only: pgPtr_t_def top4)

lemma pgPtr_o_mod: "pgPtr_o p = unat (pg_value p) mod 2 ^ 28"
  by (simp only: pgPtr_o_def and_low28)

text \<open>
  Claim C2. The tag of a tagged reference is its top 4 bits and the offset its low 28 bits
  (tag 5 and offset 10 for \<open>0x5000000A\<close>). \<open>locate\<close> is a total function into an option:
  it yields \<open>None\<close> whenever the tag is not 5, in particular for tag 6, and whenever the
  offset is at or beyond the length of the arena, for every structure type asked for.
\<close>

theorem pgPtr_locate_safe:
  "pgPtr_t p = unat (pg_value p) div 2 ^ 28 \<and>
   pgPtr_o p = unat (pg_value p) mod 2 ^ 28 \<and>
   pgPtr_t \<lparr>pg_value = 0x5000000A\<rparr> = 5 \<and> pgPtr_o \<lparr>pg_value = 0x5000000A\<rparr> = 0xA \<and>
   (pgPtr_t p \<noteq> 5 \<or> length block \<le> pgPtr_o p \<longrightarrow> locate p block struct_type = None) \<and>
   (pgPtr_t p = 6 \<longrightarrow> locate p block struct_type = None)"
  by (simp add: pgPtr_t_div pgPtr_o_mod locate_def)

theorem pgPtr_locate_safe_witness:
  "pgPtr_t \<lparr>pg_value = 0x6000000A\<rparr> = 6 \<and>
   locate \<lparr>pg_value = 0x6000000A\<rparr> [0x41, 0] C_char = None"
  using pgPtr_locate_safe [of "\<lparr>pg_value = 0x6000000A\<rparr>" "[0x41, 0]" C_char]
  by (simp add: pgPtr_t_def)

lemma span_loop_in_bounds:
  "\<forall>i\<in>set idx. offset + i * element_size + element_size \<le> length block \<Longrightarrow>
   span_loop block offset element_size idx = (map (\<lambda>i. offset + i * element_size) idx, [])"
  by (induction idx) (simp_all add: from_buffer_def)

lemma span_loop_upto:
  assumes "offset + n * element_size \<le> length block"
  shows "span_loop block offset element_size [0..<n] =
         (map (\<lambda>i. offset + i * element_size) [0..<n], [])"
proof (rule span_loop_in_bounds, rule ballI)
  fix i assume "i \<in> set [0..<n]"
  then have "Suc i \<le> n" by simp
  then have "Suc i * element_size \<le> n * element_size"
    by (rule mult_le_mono1)
  with assms show "offset + i * element_size + element_size \<le> length block"
    by simp
qed

text \<open>
  Claim C7, as the code has it. The nominal element count is the larger of the declared
  count and the declared capacity. When that many elements would overrun the arena, the
  count falls back to the declared count (not to the smaller of the two). When the count
  so chosen fits, exactly that many element views are returned, all within the arena;
  when it does not, the result is empty and one out-of-bounds diagnostic is printed.
  A reference whose tag is not 5, or an empty arena, gives the empty result silently.
\<close>

theorem get_span_fallback:
  "get_span a block element_size =
     (let offset = pgObjectArray_o a; c = unat (arr_count a); s = unat (arr_size a);
          n = (if offset + max c s * element_size \<le> length block then max c s else c)
      in if block = [] \<or> pgObjectArray_t a \<noteq> 5 then ([], [])
         else if offset + n * element_size \<le> length block
              then (map (\<lambda>i. offset + i * element_size) [0..<n], [])
              else ([], [SpanOutOfBounds offset c s element_size (length block)]))"
  by (simp add: get_span_def Let_def span_loop_upto not_le)

text \<open>
  Claim C7 as stated fails: with declared count 2, capacity 1 and a 4-byte arena of 4-byte
  elements, the nominal count 2 overruns and the smaller count 1 would fit, yet nothing
  is read.
\<close>

theorem get_span_counterexample:
  "pgObjectArray_o \<lparr>ptr_value = 0x50000000, arr_count = 2, arr_size = 1\<rparr> +
     max (unat (2 :: 16 word)) (unat (1 :: 16 word)) * 4 > length [0, 0, 0, 0 :: byte] \<and>
   pgObjectArray_o \<lparr>ptr_value = 0x50000000, arr_count = 2, arr_size = 1\<rparr> +
     min (unat (2 :: 16 word)) (unat (1 :: 16 word)) * 4 \<le> length [0, 0, 0, 0 :: byte] \<and>
   get_span \<lparr>ptr_value = 0x50000000, arr_count = 2, arr_size = 1\<rparr> [0, 0, 0, 0] 4 =
     ([], [SpanOutOfBounds 0 2 1 4 4])"
  by (simp add: get_span_def pgObjectArray_o_def pgObjectArray_t_def)

section \<open>Properties of the string walker\<close>

lemma find_from_ge: "0 \<le> i \<Longrightarrow> find_from c xs i = -1 \<or> i \<le> find_from c xs i"
proof (induction xs arbitrary: i)
  case Nil
  then show ?case by simp
next
  case (Cons x xs)
  from Cons.prems have "0 \<le> i + 1" by simp
  from Cons.IH [OF this] Cons.prems show ?case by auto
qed

lemma find_from_none: "0 \<le> i \<Longrightarrow> find_from c xs i = -1 \<longleftrightarrow> c \<notin> set xs"
  by (induction xs arbitrary: i) auto

lemma find_from_first: "0 \<le> i \<Longrightarrow> find_from c xs i = i \<longleftrightarrow> xs \<noteq> [] \<and> hd xs = c"
proof (cases xs)
  case Nil
  assume "0 \<le> i" then show ?thesis using Nil by auto
next
  case (Cons x rest)
  assume i: "0 \<le> i"
  have "find_from c rest (i + 1) \<noteq> i"
    using find_from_ge [of "i + 1" c rest] i by auto
  then show ?thesis using Cons by auto
qed

lemma bytes_find_none: "bytes_find view c = -1 \<longleftrightarrow> c \<notin> set view"
  by (simp add: bytes_find_def find_from_none)

lemma bytes_find_first: "bytes_find view c = 0 \<longleftrightarrow> view \<noteq> [] \<and> hd view = c"
  by (simp add: bytes_find_def find_from_first)

lemma bytes_rfind_last:
  assumes "c \<in> set view"
  shows "bytes_rfind view c = int (length view) - 1 \<longleftrightarrow> last view = c"
proof -
  from assms have ne: "view \<noteq> []" by auto
  have "find_from c (rev view) 0 \<noteq> -1"
    using assms by (simp add: find_from_none)
  then have "bytes_rfind view c = int (length view) - 1 \<longleftrightarrow> find_from c (rev view) 0 = 0"
    by (auto simp add: bytes_rfind_def Let_def)
  also have "\<dots> \<longleftrightarrow> hd (rev view) = c"
    using ne by (simp add: find_from_first)
  finally show ?thesis using ne by (simp add: hd_rev)
qed

lemma validate_url_iff:
  "validate_url view \<longleftrightarrow>
     view \<noteq> [] \<and> list_all validate_url_char view \<and> 0x2E \<in> set view \<and>
     hd view \<noteq> 0x2E \<and> last view \<noteq> 0x2E"
proof (cases "0x2E \<in> set view")
  case True
  then show ?thesis
    by (auto simp add: validate_url_def Let_def bytes_find_none bytes_find_first bytes_rfind_last)
next
  case False
  then show ?thesis
    by (simp add: validate_url_def Let_def bytes_find_none)
qed

lemmas char_classes = validate_efigs_char_def validate_english_char_def validate_url_char_def
  validate_digit_char_def

text \<open>
  Claim C4, as the code has it. A candidate is accepted exactly when it holds an EFIGS
  byte (A-Z, a-z or a byte from 0xC0 on) and is no URL, where a URL is a non-empty string
  of URL bytes (letters, digits, \<open>.\<close>, \<open>%\<close>, \<open>@\<close>, \<open>-\<close>, \<open>_\<close>) that holds a \<open>.\<close> and neither
  starts nor ends with one. A non-empty candidate whose hash was not seen before is
  appended, with its FNV-1a hash, exactly when it is accepted. \<open>www.rock.com\<close> and
  \<open>12345\<close> are rejected; \<open>Hello\<close> and \<open>Caf\<close> followed by the byte 0xE9 are accepted.
\<close>

theorem validate_string_accepts:
  "(validate_string view \<longleftrightarrow>
      list_ex validate_efigs_char view \<and>
      \<not> (view \<noteq> [] \<and> list_all validate_url_char view \<and> 0x2E \<in> set view \<and>
         hd view \<noteq> 0x2E \<and> last view \<noteq> 0x2E)) \<and>
   (validate_efigs_char c \<longleftrightarrow>
      (0x41 \<le> c \<and> c \<le> 0x5A) \<or> (0x61 \<le> c \<and> c \<le> 0x7A) \<or> 0xC0 \<le> c) \<and>
   (validate_url_char c \<longleftrightarrow>
      (0x41 \<le> c \<and> c \<le> 0x5A) \<or> (0x61 \<le> c \<and> c \<le> 0x7A) \<or> (0x30 \<le> c \<and> c \<le> 0x39) \<or>
      c \<in> {0x2E, 0x25, 0x40, 0x2D, 0x5F}) \<and>
   (ptr \<noteq> [] \<and> unat (fnv1a_32 ptr) \<notin> seen \<longrightarrow>
      TryAppendString found ptr seen =
        (if validate_string ptr
         then (found @ [\<lparr>hash = unat (fnv1a_32 ptr), str = ptr\<rparr>],
               insert (unat (fnv1a_32 ptr)) seen)
         else (found, seen))) \<and>
   \<not> validate_string (bytes_of ''www.rock.com'') \<and> \<not> validate_string (bytes_of ''12345'') \<and>
   validate_string (bytes_of ''Hello'') \<and> validate_string [0x43, 0x61, 0x66, 0xE9]"
proof -
  have examples:
    "\<not> validate_string (bytes_of ''www.rock.com'') \<and> \<not> validate_string (bytes_of ''12345'') \<and>
     validate_string (bytes_of ''Hello'') \<and> validate_string [0x43, 0x61, 0x66, 0xE9]"
    by (simp add: validate_string_def validate_url_iff bytes_of_def char_classes)
  have accept: "validate_string view \<longleftrightarrow>
      list_ex validate_efigs_char view \<and>
      \<not> (view \<noteq> [] \<and> list_all validate_url_char view \<and> 0x2E \<in> set view \<and>
         hd view \<noteq> 0x2E \<and> last view \<noteq> 0x2E)"
    by (simp add: validate_string_def validate_url_iff)
  have efigs: "validate_efigs_char c \<longleftrightarrow>
      (0x41 \<le> c \<and> c \<le> 0x5A) \<or> (0x61 \<le> c \<and> c \<le> 0x7A) \<or> 0xC0 \<le> c"
    by (auto simp add: validate_efigs_char_def validate_english_char_def)
  have url: "validate_url_char c \<longleftrightarrow>
      (0x41 \<le> c \<and> c \<le> 0x5A) \<or> (0x61 \<le> c \<and> c \<le> 0x7A) \<or> (0x30 \<le> c \<and> c \<le> 0x39) \<or>
      c \<in> {0x2E, 0x25, 0x40, 0x2D, 0x5F}"
    by (auto simp add: validate_url_char_def validate_english_char_def validate_digit_char_def)
  have append: "ptr \<noteq> [] \<and> unat (fnv1a_32 ptr) \<notin> seen \<longrightarrow>
      TryAppendString found ptr seen =
        (if validate_string ptr
         then (found @ [\<lparr>hash = unat (fnv1a_32 ptr), str = ptr\<rparr>],
               insert (unat (fnv1a_32 ptr)) seen)
         else (found, seen))"
    by (simp add: TryAppendString_def Let_def)
  from accept efigs url append examples show ?thesis
    by blast
qed

theorem validate_string_accepts_witness:
  "bytes_of ''Hello'' \<noteq> [] \<and> unat (fnv1a_32 (bytes_of ''Hello'')) \<notin> {} \<and>
   TryAppendString [] (bytes_of ''Hello'') {} =
     ([\<lparr>hash = unat (fnv1a_32 (bytes_of ''Hello'')), str = bytes_of ''Hello''\<rparr>],
      {unat (fnv1a_32 (bytes_of ''Hello''))})"
proof -
  note inst = validate_string_accepts [of "bytes_of ''Hello''" 0 "bytes_of ''Hello''" "{}" "[]"]
  have nonempty: "bytes_of ''Hello'' \<noteq> []"
    by (simp add: bytes_of_def)
  have fresh: "unat (fnv1a_32 (bytes_of ''Hello'')) \<notin> {}"
    by simp
  from inst have accepted: "validate_string (bytes_of ''Hello'')"
    by blast
  from inst nonempty fresh have
    "TryAppendString [] (bytes_of ''Hello'') {} =
       (if validate_string (bytes_of ''Hello'')
        then ([] @ [\<lparr>hash = unat (fnv1a_32 (bytes_of ''Hello'')), str = bytes_of ''Hello''\<rparr>],
              insert (unat (fnv1a_32 (bytes_of ''Hello''))) {})
        else ([], {}))"
    by blast
  with accepted nonempty fresh show ?thesis
    by simp
qed

text \<open>
  Claim C4 as stated fails: \<open>.a.b\<close> consists of URL bytes and holds a \<open>.\<close> (at index 2) that
  is neither its first nor its last character, yet it is accepted.
\<close>

theorem validate_string_counterexample:
  "validate_string (bytes_of ''.a.b'') \<and> list_all validate_url_char (bytes_of ''.a.b'') \<and>
   bytes_of ''.a.b'' ! 2 = 0x2E \<and> (2 :: nat) \<noteq> 0 \<and> 2 \<noteq> length (bytes_of ''.a.b'') - 1"
  by (simp add: validate_string_def validate_url_iff bytes_of_def char_classes)

section \<open>Properties of the text ledger\<close>

lemma LoadText_loop_append:
  "LoadText_loop n (xs @ ys) r u =
     (case LoadText_loop n xs r u of (r', u') \<Rightarrow> LoadText_loop (n + length xs) ys r' u')"
  by (induction xs arbitrary: n r u) (simp_all add: Let_def split: option.splits prod.splits)

lemma entry_regex_match_line:
  assumes "entry_regex_match line = Some (g1, g2)"
  shows "line \<noteq> [] \<and> hd line \<noteq> 0x3B"
proof -
  from assms have "11 \<le> length line \<and> line ! 0 = 0x30"
    by (simp add: entry_regex_match_def split: if_splits)
  then show ?thesis
    by (cases line) auto
qed

lemma LoadText_last_line:
  assumes "entry_regex_match (strip raw) = Some (g1, g2)"
  shows "fst (LoadText (lines @ [raw])) =
         fst (LoadText lines) @
           (if \<not> IsBlankText (unescape g2) \<and>
               int_hex (drop 2 g1) \<noteq>
                 unat (fnv1a_32 (case encode_cp1252 (unescape g2) of Some bs \<Rightarrow> bs | None \<Rightarrow> []))
            then [\<lparr>hash = int_hex (drop 2 g1), str = unescape g2\<rparr>] else [])"
  using assms entry_regex_match_line [OF assms]
  by (simp add: LoadText_def LoadText_loop_append Let_def split: prod.splits)


lemma fnv1a_32_empty: "fnv1a_32 [] = 0x811C9DC5"
  by (simp add: fnv1a_32_def FNV_OFFSET_BASIS_32_def)

lemmas ledger_eval = LoadText_def str_of_def bytes_of_def strip_def py_isspace_def
  entry_regex_match_def slice_def is_hex_digit_def int_hex_def hex_digit_value_def unescape_def
  cp1252_encode_char_def cp1252_table_def IsBlankText_def fnv1a_32_def FNV_PRIME_32_def
  FNV_OFFSET_BASIS_32_def

text \<open>
  Claim C1. Every ledger line that parses as \<open>0xH=T\<close> (with \<open>T\<close> unescaped) adds the
  entry \<open>(H, T)\<close> to what the lines before it gave exactly when \<open>T\<close> is not blank (not all
  spaces and tabs) and \<open>H\<close> differs from the FNV-1a hash of the bytes the source re-encodes
  \<open>T\<close> to (its windows-1252 bytes, or no bytes when it has none); otherwise it adds
  nothing. With \<open>H\<close> the hash of \<open>Hi\<close>, the line \<open>0xH=Hi\<close> is excluded and \<open>0xH=Bonjour\<close>
  is included.
\<close>

theorem LoadText_merge_rule:
  "(entry_regex_match (strip raw) = Some (g1, g2) \<longrightarrow>
      fst (LoadText (lines @ [raw])) =
        fst (LoadText lines) @
          (if \<not> IsBlankText (unescape g2) \<and>
              int_hex (drop 2 g1) \<noteq>
                unat (fnv1a_32 (case encode_cp1252 (unescape g2) of
                                  Some bs \<Rightarrow> bs | None \<Rightarrow> []))
           then [\<lparr>hash = int_hex (drop 2 g1), str = unescape g2\<rparr>] else [])) \<and>
   (IsBlankText t \<longleftrightarrow> set t \<subseteq> {0x20, 0x9}) \<and>
   unat (fnv1a_32 (bytes_of ''Hi'')) = 0x67EB44BA \<and>
   LoadText [str_of ''0x67EB44BA=Hi''] = ([], []) \<and>
   LoadText [str_of ''0x67EB44BA=Bonjour''] =
     ([\<lparr>hash = 0x67EB44BA, str = str_of ''Bonjour''\<rparr>], [])"
proof -
  have rule: "entry_regex_match (strip raw) = Some (g1, g2) \<longrightarrow>
      fst (LoadText (lines @ [raw])) =
        fst (LoadText lines) @
          (if \<not> IsBlankText (unescape g2) \<and>
              int_hex (drop 2 g1) \<noteq>
                unat (fnv1a_32 (case encode_cp1252 (unescape g2) of
                                  Some bs \<Rightarrow> bs | None \<Rightarrow> []))
           then [\<lparr>hash = int_hex (drop 2 g1), str = unescape g2\<rparr>] else [])"
    using LoadText_last_line [of raw g1 g2 lines] by blast
  have blank: "IsBlankText t \<longleftrightarrow> set t \<subseteq> {0x20, 0x9}"
    by (auto simp add: IsBlankText_def list_all_iff)
  have key: "unat (fnv1a_32 (bytes_of ''Hi'')) = 0x67EB44BA"
    by (simp add: ledger_eval)
  have unchanged: "LoadText [str_of ''0x67EB44BA=Hi''] = ([], [])"
    by (simp add: ledger_eval)
  have changed: "LoadText [str_of ''0x67EB44BA=Bonjour''] =
     ([\<lparr>hash = 0x67EB44BA, str = str_of ''Bonjour''\<rparr>], [])"
    by (simp add: ledger_eval)
  from rule blank key unchanged changed show ?thesis
    by blast
qed

theorem LoadText_merge_rule_witness:
  "entry_regex_match (strip (str_of ''0x67EB44BA=Bonjour'')) =
     Some (str_of ''0x67EB44BA'', str_of ''Bonjour'') \<and>
   fst (LoadText ([] @ [str_of ''0x67EB44BA=Bonjour''])) =
     fst (LoadText []) @ [\<lparr>hash = 0x67EB44BA, str = str_of ''Bonjour''\<rparr>]"
proof -
  have parsed: "entry_regex_match (strip (str_of ''0x67EB44BA=Bonjour'')) =
     Some (str_of ''0x67EB44BA'', str_of ''Bonjour'')"
    by (simp add: ledger_eval)
  have encoded: "encode_cp1252 (unescape (str_of ''Bonjour'')) = Some (bytes_of ''Bonjour'')"
    by (simp add: ledger_eval)
  have differs: "\<not> IsBlankText (unescape (str_of ''Bonjour'')) \<and>
     int_hex (drop 2 (str_of ''0x67EB44BA'')) \<noteq> unat (fnv1a_32 (bytes_of ''Bonjour''))"
    by (simp add: ledger_eval)
  have hex: "int_hex (drop 2 (str_of ''0x67EB44BA'')) = 0x67EB44BA"
    by (simp add: ledger_eval)
  have same: "unescape (str_of ''Bonjour'') = str_of ''Bonjour''"
    by (simp add: ledger_eval)
  from LoadText_merge_rule [of "str_of ''0x67EB44BA=Bonjour''" "str_of ''0x67EB44BA''"
      "str_of ''Bonjour''" "[]" "[]"] parsed
  have "fst (LoadText ([] @ [str_of ''0x67EB44BA=Bonjour''])) =
        fst (LoadText []) @
          (if \<not> IsBlankText (unescape (str_of ''Bonjour'')) \<and>
              int_hex (drop 2 (str_of ''0x67EB44BA'')) \<noteq>
                unat (fnv1a_32 (case encode_cp1252 (unescape (str_of ''Bonjour'')) of
                                  Some bs \<Rightarrow> bs | None \<Rightarrow> []))
           then [\<lparr>hash = int_hex (drop 2 (str_of ''0x67EB44BA'')),
                  str = unescape (str_of ''Bonjour'')\<rparr>] else [])"
    by blast
  then have "fst (LoadText ([] @ [str_of ''0x67EB44BA=Bonjour''])) =
        fst (LoadText []) @
          (if \<not> IsBlankText (unescape (str_of ''Bonjour'')) \<and>
              int_hex (drop 2 (str_of ''0x67EB44BA'')) \<noteq> unat (fnv1a_32 (bytes_of ''Bonjour''))
           then [\<lparr>hash = int_hex (drop 2 (str_of ''0x67EB44BA'')),
                  str = unescape (str_of ''Bonjour'')\<rparr>] else [])"
    by (simp only: encoded option.case)
  with differs hex same parsed show ?thesis
    by simp
qed

text \<open>
  Claim C10. When the text of a parsed line cannot be encoded in windows-1252, the hash is
  taken over the empty byte string, which is \<open>0x811C9DC5\<close>: the entry is added exactly when
  its text is not blank and its key hash differs from that value. \<open>LoadText\<close> is total:
  the encoding failure is a branch of the loop, not an exception.
\<close>

theorem LoadText_encoding_failure:
  "fnv1a_32 [] = 0x811C9DC5 \<and>
   (entry_regex_match (strip raw) = Some (g1, g2) \<and> encode_cp1252 (unescape g2) = None \<longrightarrow>
      fst (LoadText (lines @ [raw])) =
        fst (LoadText lines) @
          (if \<not> IsBlankText (unescape g2) \<and> int_hex (drop 2 g1) \<noteq> 0x811C9DC5
           then [\<lparr>hash = int_hex (drop 2 g1), str = unescape g2\<rparr>] else []))"
  by (auto simp add: LoadText_last_line fnv1a_32_empty)

theorem LoadText_encoding_failure_witness:
  "entry_regex_match (strip (str_of ''0x12345678='' @ [0x65E5, 0x672C])) =
     Some (str_of ''0x12345678'', [0x65E5, 0x672C]) \<and>
   encode_cp1252 (unescape [0x65E5, 0x672C]) = None \<and>
   fst (LoadText ([] @ [str_of ''0x12345678='' @ [0x65E5, 0x672C]])) =
     fst (LoadText []) @ [\<lparr>hash = 0x12345678, str = [0x65E5, 0x672C]\<rparr>]"
proof -
  have parsed: "entry_regex_match (strip (str_of ''0x12345678='' @ [0x65E5, 0x672C])) =
     Some (str_of ''0x12345678'', [0x65E5, 0x672C])"
    by (simp add: ledger_eval)
  have fails: "encode_cp1252 (unescape [0x65E5, 0x672C]) = None"
    by (simp add: ledger_eval)
  have differs: "\<not> IsBlankText (unescape [0x65E5, 0x672C]) \<and>
     int_hex (drop 2 (str_of ''0x12345678'')) \<noteq> 0x811C9DC5"
    by (simp add: ledger_eval)
  have hex: "int_hex (drop 2 (str_of ''0x12345678'')) = 0x12345678"
    by (simp add: ledger_eval)
  have same: "unescape [0x65E5, 0x672C] = [0x65E5, 0x672C]"
    by (simp add: ledger_eval)
  from LoadText_encoding_failure [of "str_of ''0x12345678='' @ [0x65E5, 0x672C]"
      "str_of ''0x12345678''" "[0x65E5, 0x672C]" "[]"] parsed fails
  have "fst (LoadText ([] @ [str_of ''0x12345678='' @ [0x65E5, 0x672C]])) =
        fst (LoadText []) @
          (if \<not> IsBlankText (unescape [0x65E5, 0x672C]) \<and>
              int_hex (drop 2 (str_of ''0x12345678'')) \<noteq> 0x811C9DC5
           then [\<lparr>hash = int_hex (drop 2 (str_of ''0x12345678'')),
                  str = unescape [0x65E5, 0x672C]\<rparr>] else [])"
    by blast
  with differs hex same parsed fails show ?thesis
    by simp
qed


section \<open>Properties of the node walk\<close>

lemma length_le_bytes: "length (le_bytes k n) = k"
  by (induction k arbitrary: n) simp_all

lemma le_value_Cons: "le_value (b # bs) = unat b + 256 * le_value bs"
  by (simp add: le_value_def)

lemma unat_byte_of_nat: "unat (of_nat (n mod 256) :: byte) = n mod 256"
  by (simp add: unat_of_nat)

lemma le_value_le_bytes: "le_value (le_bytes k n) = n mod 256 ^ k"
proof (induction k arbitrary: n)
  case 0
  then show ?case by (simp add: le_value_def)
next
  case (Suc k)
  have "le_value (le_bytes (Suc k) n) = n mod 256 + 256 * (n div 256 mod 256 ^ k)"
    by (simp only: le_bytes.simps le_value_Cons unat_byte_of_nat Suc.IH)
  also have "\<dots> = n mod 256 ^ Suc k"
    by (simp add: mod_mult2_eq)
  finally show ?case .
qed

lemma slice_middle:
  "length pre = off \<Longrightarrow> slice (pre @ mid @ post) off (off + length mid) = mid"
  by (simp add: slice_def)

lemma read_u32_at:
  assumes "length pre = off" and "n < 2 ^ 32"
  shows "read_u32 (pre @ le_bytes 4 n @ post) off = Some (of_nat n)"
proof -
  have "slice (pre @ le_bytes 4 n @ post) off (off + 4) = le_bytes 4 n"
    using slice_middle [OF assms(1), of "le_bytes 4 n" post] by (simp add: length_le_bytes)
  moreover have "n mod 256 ^ 4 = n"
    using assms(2) by simp
  ultimately show ?thesis
    using assms(1) by (simp add: read_u32_def le_value_le_bytes length_le_bytes)
qed

lemma read_u16_at:
  assumes "length pre = off" and "n < 2 ^ 16"
  shows "read_u16 (pre @ le_bytes 2 n @ post) off = Some (of_nat n)"
proof -
  have "slice (pre @ le_bytes 2 n @ post) off (off + 2) = le_bytes 2 n"
    using slice_middle [OF assms(1), of "le_bytes 2 n" post] by (simp add: length_le_bytes)
  moreover have "n mod 256 ^ 2 = n"
    using assms(2) by simp
  ultimately show ?thesis
    using assms(1) by (simp add: read_u16_def le_value_le_bytes length_le_bytes)
qed

lemma length_node_image: "length (node_image k c n s) = 216"
  by (simp add: node_image_def length_le_bytes)

lemma CHtmlNode_at_image:
  assumes "length pre = off" and "kind < 2 ^ 32" and "children < 2 ^ 32"
    and "count < 2 ^ 16" and "capacity < 2 ^ 16"
  shows "CHtmlNode_at (pre @ node_image kind children count capacity @ post) off =
     Some \<lparr>vtbl = 0, m_eNodeType = of_nat kind, m_pParentNode = \<lparr>pg_value = 0\<rparr>,
           m_children = \<lparr>ptr_value = of_nat children, arr_count = of_nat count,
                         arr_size = of_nat capacity\<rparr>\<rparr>"
proof -
  let ?blk = "pre @ node_image kind children count capacity @ post"
  let ?tail = "replicate 196 0 @ post"
  have r0: "read_u32 ?blk off = Some 0"
    using read_u32_at [of pre off 0] assms(1) by (simp add: node_image_def)
  have r4: "read_u32 ?blk (off + 4) = Some (of_nat kind)"
    using read_u32_at [of "pre @ le_bytes 4 0" "off + 4" kind] assms(1,2)
    by (simp add: node_image_def length_le_bytes)
  have r8: "read_u32 ?blk (off + 8) = Some 0"
    using read_u32_at [of "pre @ le_bytes 4 0 @ le_bytes 4 kind" "off + 8" 0] assms(1)
    by (simp add: node_image_def length_le_bytes)
  have r12: "read_u32 ?blk (off + 12) = Some (of_nat children)"
    using read_u32_at [of "pre @ le_bytes 4 0 @ le_bytes 4 kind @ le_bytes 4 0" "off + 12" children]
      assms(1,3)
    by (simp add: node_image_def length_le_bytes)
  have r16: "read_u16 ?blk (off + 16) = Some (of_nat count)"
    using read_u16_at [of "pre @ le_bytes 4 0 @ le_bytes 4 kind @ le_bytes 4 0 @ le_bytes 4 children"
        "off + 16" count] assms(1,4)
    by (simp add: node_image_def length_le_bytes)
  have r18: "read_u16 ?blk (off + 18) = Some (of_nat capacity)"
    using read_u16_at [of "pre @ le_bytes 4 0 @ le_bytes 4 kind @ le_bytes 4 0 @ le_bytes 4 children @
        le_bytes 2 count" "off + 18" capacity] assms(1,5)
    by (simp add: node_image_def length_le_bytes)
  have len: "off + sizeof_CHtmlNode \<le> length ?blk"
    using assms(1) by (simp add: length_node_image sizeof_CHtmlNode_def)
  show ?thesis
    unfolding CHtmlNode_at_def using len by (simp only: r0 r4 r8 r12 r16 r18) simp
qed

lemma arena_length: "length example_arena = 446"
  by (simp add: example_arena_def length_node_image bytes_of_def length_le_bytes)

lemma arena_nonempty: "example_arena \<noteq> []"
  using arena_length by auto

lemma root_node:
  "CHtmlNode_at example_arena 0 =
     Some \<lparr>vtbl = 0, m_eNodeType = 7, m_pParentNode = \<lparr>pg_value = 0\<rparr>,
           m_children = \<lparr>ptr_value = 0x500000D8, arr_count = 1, arr_size = 1\<rparr>\<rparr>"
  using CHtmlNode_at_image [of "[]" 0 7 "0x500000D8" 1 1]
  by (simp add: example_arena_def)

lemma root_span:
  "get_span \<lparr>ptr_value = 0x500000D8, arr_count = 1, arr_size = 1\<rparr> example_arena sizeof_pgPtr =
     ([216], [])"
  by (simp add: get_span_def pgObjectArray_o_def pgObjectArray_t_def arena_length arena_nonempty
      from_buffer_def sizeof_pgPtr_def)

lemma child_ptr: "pgPtr_at example_arena 216 = Some \<lparr>pg_value = 0x500000DC\<rparr>"
  using read_u32_at [of "node_image 7 0x500000D8 1 1" 216 "0x500000DC"]
  by (simp add: pgPtr_at_def example_arena_def length_node_image)

lemma child_located:
  "locate \<lparr>pg_value = 0x500000DC\<rparr> example_arena (Struct sizeof_CHtmlNode) = Some (StructAt 220)"
  by (simp add: locate_def pgPtr_o_def pgPtr_t_def arena_length arena_nonempty from_buffer_def
      sizeof_CHtmlNode_def)

lemma child_node:
  "CHtmlNode_at example_arena 220 =
     Some \<lparr>vtbl = 0, m_eNodeType = 1, m_pParentNode = \<lparr>pg_value = 0\<rparr>,
           m_children = \<lparr>ptr_value = 0, arr_count = 0, arr_size = 0\<rparr>\<rparr>"
  using CHtmlNode_at_image [of "node_image 7 0x500000D8 1 1 @ le_bytes 4 0x500000DC" 220 1 0 0 0]
  by (simp add: example_arena_def length_node_image length_le_bytes)

lemma child_span:
  "get_span \<lparr>ptr_value = 0, arr_count = 0, arr_size = 0\<rparr> example_arena sizeof_pgPtr = ([], [])"
  by (simp add: get_span_def pgObjectArray_t_def)

lemma child_data_ptr:
  "pgPtr_at example_arena (220 + sizeof_CHtmlNode) = Some \<lparr>pg_value = 0x500001B8\<rparr>"
  using read_u32_at [of "node_image 7 0x500000D8 1 1 @ le_bytes 4 0x500000DC @ node_image 1 0 0 0"
      436 "0x500001B8"]
  by (simp add: pgPtr_at_def example_arena_def length_node_image length_le_bytes sizeof_CHtmlNode_def)

lemma arena_tail: "drop 440 example_arena = bytes_of ''Hello'' @ [0]"
  by (simp add: example_arena_def length_node_image length_le_bytes)

lemma child_text:
  "locate \<lparr>pg_value = 0x500001B8\<rparr> example_arena C_char = Some (Bytes (bytes_of ''Hello''))"
proof -
  have tag: "pgPtr_t \<lparr>pg_value = 0x500001B8\<rparr> = 5" and off: "pgPtr_o \<lparr>pg_value = 0x500001B8\<rparr> = 440"
    by (simp_all add: pgPtr_t_def pgPtr_o_def)
  have scan: "scan_null (drop 440 example_arena) 440 = Some 445"
    by (simp add: arena_tail bytes_of_def)
  have found: "slice example_arena 440 445 = bytes_of ''Hello''"
    by (simp add: slice_def arena_tail bytes_of_def)
  show ?thesis
    by (simp add: locate_def tag off arena_length arena_nonempty scan found)
qed

lemma validate_Hello: "validate_string (bytes_of ''Hello'')"
  by (simp add: validate_string_def validate_url_def bytes_of_def validate_efigs_char_def
      validate_english_char_def validate_url_char_def validate_digit_char_def bytes_find_def
      bytes_rfind_def)

lemma child_walk:
  "ExtractNodeStrings (Suc 0) (Some 220) example_arena walk0 = walk_Hello"
proof -
  have nonempty: "bytes_of ''Hello'' \<noteq> []"
    by (simp add: bytes_of_def)
  show ?thesis
    by (simp add: child_node child_span classify_node_def HtmlNodeType_of_def child_data_ptr
        child_text TryAppendString_def validate_Hello walk0_def walk_Hello_def nonempty Let_def)
qed

lemma children_walk: "walk_children (Suc 0) [216] example_arena walk0 = walk_Hello"
proof -
  have running: "state walk_Hello = Running"
    by (simp add: walk_Hello_def)
  have "walk_children (Suc 0) [216] example_arena walk0 =
          (let w1 = ExtractNodeStrings (Suc 0) (Some 220) example_arena walk0
           in if state w1 \<noteq> Running then w1 else walk_children (Suc 0) [] example_arena w1)"
    by (simp only: walk_children.simps(2) child_ptr child_located option.case located.case)
  also have "\<dots> = walk_Hello"
    by (simp only: child_walk Let_def running walk_children.simps(1)) simp
  finally show ?thesis .
qed

lemma unknown_kind_step:
  assumes "CHtmlNode_at block off = Some node"
    and "HtmlNodeType_of (m_eNodeType node) = None"
    and "get_span (m_children node) block sizeof_pgPtr = (span, out)"
    and "state (walk_children depth span block (w\<lparr>stderr := stderr w @ out\<rparr>)) = Running"
  shows "ExtractNodeStrings (Suc depth) (Some off) block w =
           (walk_children depth span block (w\<lparr>stderr := stderr w @ out\<rparr>))
             \<lparr>stderr := stderr (walk_children depth span block (w\<lparr>stderr := stderr w @ out\<rparr>)) @
                         [UnknownNodeType (unat (m_eNodeType node))]\<rparr>"
  using assms by (simp add: classify_node_def Let_def)

lemma walk0_start: "walk0\<lparr>stderr := stderr walk0 @ []\<rparr> = walk0"
  by (simp add: walk0_def)

lemma kind_7: "HtmlNodeType_of 7 = None"
  by (simp add: HtmlNodeType_of_def)

text \<open>
  Claim C6, as the code has it. The children of a node are walked before its kind is
  inspected. For a node of unknown kind whose children were walked without an exception,
  the result is the result of the children's walk (container and hash set with every
  string found below the node) plus one diagnostic; the node itself adds no string, and
  the walk is still running, so its siblings and ancestors are processed as usual.
\<close>

theorem unknown_kind_keeps_children:
  "CHtmlNode_at block off = Some node \<and> HtmlNodeType_of (m_eNodeType node) = None \<and>
   get_span (m_children node) block sizeof_pgPtr = (span, out) \<and>
   state (walk_children depth span block (w\<lparr>stderr := stderr w @ out\<rparr>)) = Running \<longrightarrow>
   ExtractNodeStrings (Suc depth) (Some off) block w =
     (walk_children depth span block (w\<lparr>stderr := stderr w @ out\<rparr>))
       \<lparr>stderr := stderr (walk_children depth span block (w\<lparr>stderr := stderr w @ out\<rparr>)) @
                   [UnknownNodeType (unat (m_eNodeType node))]\<rparr>"
  using unknown_kind_step by blast

theorem unknown_kind_keeps_children_witness:
  "CHtmlNode_at example_arena 0 =
     Some \<lparr>vtbl = 0, m_eNodeType = 7, m_pParentNode = \<lparr>pg_value = 0\<rparr>,
           m_children = \<lparr>ptr_value = 0x500000D8, arr_count = 1, arr_size = 1\<rparr>\<rparr> \<and>
   HtmlNodeType_of 7 = None \<and>
   get_span \<lparr>ptr_value = 0x500000D8, arr_count = 1, arr_size = 1\<rparr> example_arena sizeof_pgPtr =
     ([216], []) \<and>
   state (walk_children (Suc 0) [216] example_arena walk0) = Running \<and>
   ExtractNodeStrings (Suc (Suc 0)) (Some 0) example_arena walk0 =
     walk_Hello\<lparr>stderr := [UnknownNodeType 7]\<rparr>"
proof -
  let ?node = "\<lparr>vtbl = 0, m_eNodeType = 7, m_pParentNode = \<lparr>pg_value = 0\<rparr>,
                m_children = \<lparr>ptr_value = 0x500000D8, arr_count = 1, arr_size = 1\<rparr>\<rparr>"
  have running: "state (walk_children (Suc 0) [216] example_arena walk0) = Running"
    by (simp only: children_walk) (simp add: walk_Hello_def)
  have hyps: "CHtmlNode_at example_arena 0 = Some ?node \<and>
      HtmlNodeType_of (m_eNodeType ?node) = None \<and>
      get_span (m_children ?node) example_arena sizeof_pgPtr = ([216], []) \<and>
      state (walk_children (Suc 0) [216] example_arena
               (walk0\<lparr>stderr := stderr walk0 @ []\<rparr>)) = Running"
    using root_node root_span running by (simp add: kind_7 walk0_start)
  from unknown_kind_keeps_children [of example_arena 0 ?node "[216]" "[]" "Suc 0" walk0] hyps
  have "ExtractNodeStrings (Suc (Suc 0)) (Some 0) example_arena walk0 =
     (walk_children (Suc 0) [216] example_arena (walk0\<lparr>stderr := stderr walk0 @ []\<rparr>))
       \<lparr>stderr := stderr (walk_children (Suc 0) [216] example_arena
                            (walk0\<lparr>stderr := stderr walk0 @ []\<rparr>)) @
                   [UnknownNodeType (unat (m_eNodeType ?node))]\<rparr>"
    by blast
  then have "ExtractNodeStrings (Suc (Suc 0)) (Some 0) example_arena walk0 =
     walk_Hello\<lparr>stderr := [UnknownNodeType 7]\<rparr>"
    by (simp only: walk0_start children_walk) (simp add: walk_Hello_def)
  with root_node root_span running show ?thesis
    by (simp add: kind_7)
qed

text \<open>
  Claim C6 as stated fails: in the example arena the node of unknown kind 7 has a data
  node below it, and that descendant's string is emitted.
\<close>

theorem unknown_kind_counterexample:
  "map_option m_eNodeType (CHtmlNode_at example_arena 0) = Some 7 \<and>
   HtmlNodeType_of 7 = None \<and>
   ExtractNodeStrings 2 (Some 0) example_arena walk0 =
     \<lparr>container = [\<lparr>hash = unat (fnv1a_32 (bytes_of ''Hello'')), str = bytes_of ''Hello''\<rparr>],
      hashes = {unat (fnv1a_32 (bytes_of ''Hello''))},
      stderr = [UnknownNodeType 7], state = Running\<rparr>"
proof -
  have running: "state (walk_children (Suc 0) [216] example_arena
                          (walk0\<lparr>stderr := stderr walk0 @ []\<rparr>)) = Running"
    by (simp only: walk0_start children_walk) (simp add: walk_Hello_def)
  have "ExtractNodeStrings (Suc (Suc 0)) (Some 0) example_arena walk0 =
          (walk_children (Suc 0) [216] example_arena (walk0\<lparr>stderr := stderr walk0 @ []\<rparr>))
            \<lparr>stderr := stderr (walk_children (Suc 0) [216] example_arena
                                 (walk0\<lparr>stderr := stderr walk0 @ []\<rparr>)) @
                        [UnknownNodeType (unat (7 :: u32))]\<rparr>"
    using unknown_kind_step [OF root_node _ _ running] root_span kind_7 by simp
  then have "ExtractNodeStrings (Suc (Suc 0)) (Some 0) example_arena walk0 =
     walk_Hello\<lparr>stderr := [UnknownNodeType 7]\<rparr>"
    by (simp only: walk0_start children_walk) (simp add: walk_Hello_def)
  then show ?thesis
    by (simp add: root_node kind_7 numeral_2_eq_2 walk_Hello_def)
qed

section \<open>Properties of the San Andreas text loader\<close>


lemma hash_key: "gta_sa_hash ascii_upper (str_of ''key'') = Inr 0xE3C816DC"
  by (simp add: gta_sa_hash_def str_of_def ascii_upper_def CRC32_TABLE_def)








section \<open>Properties of the translation database\<close>

subsection \<open>The UTF-8 codec\<close>

lemma shift64: "(q :: nat) div 64 * (64 * k) + q mod 64 * k = q * k"
proof -
  have "q div 64 * (64 * k) + q mod 64 * k = (q div 64 * 64 + q mod 64) * k"
    by (simp only: add_mult_distrib mult.assoc)
  also have "\<dots> = q * k"
    by (simp only: div_mult_mod_eq)
  finally show ?thesis .
qed

lemma split3: "(c :: nat) div 4096 * 4096 + c div 64 mod 64 * 64 + c mod 64 = c"
proof -
  have "c div (64 * 64) = c div 64 div 64"
    by (rule div_mult2_eq)
  then have d: "c div 4096 = c div 64 div 64"
    by simp
  have "c div 64 div 64 * 4096 + c div 64 mod 64 * 64 = c div 64 * 64"
    using shift64 [of "c div 64" 64] by simp
  then show ?thesis
    by (simp add: d)
qed

lemma split4:
  "(c :: nat) div 262144 * 262144 + c div 4096 mod 64 * 4096 + c div 64 mod 64 * 64 + c mod 64 = c"
proof -
  have "c div (4096 * 64) = c div 4096 div 64"
    by (rule div_mult2_eq)
  then have d: "c div 262144 = c div 4096 div 64"
    by simp
  have "c div 4096 div 64 * 262144 + c div 4096 mod 64 * 4096 = c div 4096 * 4096"
    using shift64 [of "c div 4096" 4096] by simp
  then have "c div 262144 * 262144 + c div 4096 mod 64 * 4096 + c div 64 mod 64 * 64 + c mod 64 =
        c div 4096 * 4096 + c div 64 mod 64 * 64 + c mod 64"
    by (simp add: d)
  then show ?thesis
    by (simp only: split3)
qed

lemma bound2: "(c :: nat) < 0x800 \<Longrightarrow> c div 64 < 32"
  by (simp add: div_less_iff_less_mult)

lemma bound2_low: "0x80 \<le> (c :: nat) \<Longrightarrow> 2 \<le> c div 64"
  by (simp add: less_eq_div_iff_mult_less_eq)

lemma bound3: "(c :: nat) < 0x10000 \<Longrightarrow> c div 4096 < 16"
  by (simp add: div_less_iff_less_mult)

lemma bound4: "(c :: nat) < 0x110000 \<Longrightarrow> c div 262144 \<le> 4"
proof -
  assume "c < 0x110000"
  then have "c div 262144 < 5"
    by (simp add: div_less_iff_less_mult)
  then show ?thesis by simp
qed


lemma mod64_small: "(x :: nat) mod 64 < 128"
proof -
  have "x mod 64 < 64" by simp
  then show ?thesis by linarith
qed

lemma byte_of_small: "n < 256 \<Longrightarrow> unat (of_nat n :: byte) = n"
  by (simp add: unat_of_nat)

lemma utf8_decode_1:
  "unat b0 < 0x80 \<Longrightarrow> utf8_decode (b0 # rest) = map_option ((#) (unat b0)) (utf8_decode rest)"
  by simp

lemma utf8_decode_2:
  "0xC2 \<le> unat b0 \<Longrightarrow> unat b0 \<le> 0xDF \<Longrightarrow> is_continuation b1 \<Longrightarrow>
   utf8_decode (b0 # b1 # rest) =
     map_option ((#) ((unat b0 - 0xC0) * 64 + (unat b1 - 0x80))) (utf8_decode rest)"
  by simp

lemma utf8_decode_3:
  "0xE0 \<le> unat b0 \<Longrightarrow> unat b0 \<le> 0xEF \<Longrightarrow> is_continuation b1 \<Longrightarrow> is_continuation b2 \<Longrightarrow>
   0x800 \<le> (unat b0 - 0xE0) * 4096 + (unat b1 - 0x80) * 64 + (unat b2 - 0x80) \<Longrightarrow>
   \<not> (0xD800 \<le> (unat b0 - 0xE0) * 4096 + (unat b1 - 0x80) * 64 + (unat b2 - 0x80) \<and>
      (unat b0 - 0xE0) * 4096 + (unat b1 - 0x80) * 64 + (unat b2 - 0x80) \<le> 0xDFFF) \<Longrightarrow>
   utf8_decode (b0 # b1 # b2 # rest) =
     map_option ((#) ((unat b0 - 0xE0) * 4096 + (unat b1 - 0x80) * 64 + (unat b2 - 0x80)))
       (utf8_decode rest)"
  by (simp add: Let_def)

lemma utf8_decode_4:
  "0xF0 \<le> unat b0 \<Longrightarrow> unat b0 \<le> 0xF4 \<Longrightarrow> is_continuation b1 \<Longrightarrow> is_continuation b2 \<Longrightarrow>
   is_continuation b3 \<Longrightarrow>
   0x10000 \<le> (unat b0 - 0xF0) * 262144 + (unat b1 - 0x80) * 4096 + (unat b2 - 0x80) * 64 +
              (unat b3 - 0x80) \<Longrightarrow>
   (unat b0 - 0xF0) * 262144 + (unat b1 - 0x80) * 4096 + (unat b2 - 0x80) * 64 +
     (unat b3 - 0x80) < 0x110000 \<Longrightarrow>
   utf8_decode (b0 # b1 # b2 # b3 # rest) =
     map_option ((#) ((unat b0 - 0xF0) * 262144 + (unat b1 - 0x80) * 4096 +
                      (unat b2 - 0x80) * 64 + (unat b3 - 0x80))) (utf8_decode rest)"
  by (simp add: Let_def)

lemma utf8_char_values:
  assumes "utf8_encode_char c = Some bs"
  shows "\<exists>ns. bs = map of_nat ns \<and> (\<forall>n\<in>set ns. n < 256 \<and> (c \<noteq> 0 \<longrightarrow> n \<noteq> 0)) \<and>
         ns = (if c < 0x80 then [c]
               else if c < 0x800 then [0xC0 + c div 64, 0x80 + c mod 64]
               else if c < 0x10000 then [0xE0 + c div 4096, 0x80 + c div 64 mod 64, 0x80 + c mod 64]
               else [0xF0 + c div 262144, 0x80 + c div 4096 mod 64, 0x80 + c div 64 mod 64,
                     0x80 + c mod 64])"
proof -
  consider (a) "c < 0x80" | (b) "0x80 \<le> c" "c < 0x800" | (c) "0x800 \<le> c" "c < 0x10000"
    | (d) "0x10000 \<le> c" "c < 0x110000" | (e) "0x110000 \<le> c"
    by linarith
  then show ?thesis
  proof cases
    case a
    with assms show ?thesis
      by (simp add: utf8_encode_char_def)
  next
    case b
    from b bound2 [of c] have "0xC0 + c div 64 < 256"
      by simp
    with assms b show ?thesis
      by (simp add: utf8_encode_char_def mod64_small)
  next
    case c
    from c bound3 [of c] have "0xE0 + c div 4096 < 256"
      by simp
    with assms c show ?thesis
      by (simp add: utf8_encode_char_def mod64_small split: if_splits)
  next
    case d
    from d bound4 [of c] have "0xF0 + c div 262144 < 256"
      by simp
    with assms d show ?thesis
      by (simp add: utf8_encode_char_def mod64_small split: if_splits)
  next
    case e
    with assms show ?thesis
      by (simp add: utf8_encode_char_def)
  qed
qed

lemma utf8_char_round_trip:
  assumes "utf8_encode_char c = Some bs"
  shows "utf8_decode (bs @ rest) = map_option ((#) c) (utf8_decode rest)"
proof -
  from utf8_char_values [OF assms] obtain ns where bs: "bs = map of_nat ns"
    and small: "\<forall>n\<in>set ns. n < 256"
    and ns: "ns = (if c < 0x80 then [c]
               else if c < 0x800 then [0xC0 + c div 64, 0x80 + c mod 64]
               else if c < 0x10000 then [0xE0 + c div 4096, 0x80 + c div 64 mod 64, 0x80 + c mod 64]
               else [0xF0 + c div 262144, 0x80 + c div 4096 mod 64, 0x80 + c div 64 mod 64,
                     0x80 + c mod 64])"
    by blast
  have un: "map unat bs = ns"
    unfolding bs using small by (induction ns) (simp_all add: byte_of_small)
  from assms have range: "c < 0x110000" and sur: "\<not> (0xD800 \<le> c \<and> c \<le> 0xDFFF)"
    by (auto simp add: utf8_encode_char_def split: if_splits)
  consider (a) "c < 0x80" | (b) "0x80 \<le> c" "c < 0x800" | (c) "0x800 \<le> c" "c < 0x10000"
    | (d) "0x10000 \<le> c"
    by linarith
  then show ?thesis
  proof cases
    case a
    with un ns obtain b0 where bs0: "bs = [b0]" and u0: "unat b0 = c"
      by (auto simp add: map_eq_Cons_conv)
    from a u0 have "unat b0 < 0x80"
      by simp
    from utf8_decode_1 [OF this, of rest] show ?thesis
      by (simp only: bs0 u0 append.simps)
  next
    case b
    with un ns obtain b0 b1 where bs0: "bs = [b0, b1]" and u0: "unat b0 = 0xC0 + c div 64"
      and u1: "unat b1 = 0x80 + c mod 64"
      by (auto simp add: map_eq_Cons_conv)
    have lead: "0xC2 \<le> unat b0" "unat b0 \<le> 0xDF"
      using bound2 [of c] bound2_low [of c] b by (simp_all add: u0)
    have cont: "is_continuation b1"
      by (simp add: is_continuation_def u1)
    have val: "(unat b0 - 0xC0) * 64 + (unat b1 - 0x80) = c"
      by (simp add: u0 u1)
    from utf8_decode_2 [OF lead cont, of rest] show ?thesis
      by (simp only: bs0 val append.simps)
  next
    case c
    with un ns obtain b0 b1 b2 where bs0: "bs = [b0, b1, b2]"
      and u0: "unat b0 = 0xE0 + c div 4096" and u1: "unat b1 = 0x80 + c div 64 mod 64"
      and u2: "unat b2 = 0x80 + c mod 64"
      by (auto simp add: map_eq_Cons_conv)
    have lead: "0xE0 \<le> unat b0" "unat b0 \<le> 0xEF"
      using bound3 [of c] c by (simp_all add: u0)
    have cont: "is_continuation b1" "is_continuation b2"
      by (simp_all add: is_continuation_def u1 u2)
    have val: "(unat b0 - 0xE0) * 4096 + (unat b1 - 0x80) * 64 + (unat b2 - 0x80) = c"
      using split3 [of c] by (simp add: u0 u1 u2)
    have lower: "0x800 \<le> (unat b0 - 0xE0) * 4096 + (unat b1 - 0x80) * 64 + (unat b2 - 0x80)"
      using c by (simp only: val)
    have nosur: "\<not> (0xD800 \<le> (unat b0 - 0xE0) * 4096 + (unat b1 - 0x80) * 64 + (unat b2 - 0x80) \<and>
      (unat b0 - 0xE0) * 4096 + (unat b1 - 0x80) * 64 + (unat b2 - 0x80) \<le> 0xDFFF)"
      unfolding val by (rule sur)
    from utf8_decode_3 [OF lead cont lower nosur, of rest] show ?thesis
      by (simp only: bs0 val append.simps)
  next
    case d
    with un ns obtain b0 b1 b2 b3 where bs0: "bs = [b0, b1, b2, b3]"
      and u0: "unat b0 = 0xF0 + c div 262144" and u1: "unat b1 = 0x80 + c div 4096 mod 64"
      and u2: "unat b2 = 0x80 + c div 64 mod 64" and u3: "unat b3 = 0x80 + c mod 64"
      by (auto simp add: map_eq_Cons_conv)
    have lead: "0xF0 \<le> unat b0" "unat b0 \<le> 0xF4"
      using bound4 [OF range] by (simp_all add: u0)
    have cont: "is_continuation b1" "is_continuation b2" "is_continuation b3"
      by (simp_all add: is_continuation_def u1 u2 u3)
    have val: "(unat b0 - 0xF0) * 262144 + (unat b1 - 0x80) * 4096 + (unat b2 - 0x80) * 64 +
               (unat b3 - 0x80) = c"
      using split4 [of c] by (simp add: u0 u1 u2 u3)
    have lower: "0x10000 \<le> (unat b0 - 0xF0) * 262144 + (unat b1 - 0x80) * 4096 +
                 (unat b2 - 0x80) * 64 + (unat b3 - 0x80)"
      using d by (simp only: val)
    have upper: "(unat b0 - 0xF0) * 262144 + (unat b1 - 0x80) * 4096 +
                 (unat b2 - 0x80) * 64 + (unat b3 - 0x80) < 0x110000"
      using range by (simp only: val)
    from utf8_decode_4 [OF lead cont lower upper, of rest] show ?thesis
      by (simp only: bs0 val append.simps)
  qed
qed

lemma utf8_round_trip: "utf8_encode s = Some bs \<Longrightarrow> utf8_decode bs = Some s"
proof (induction s arbitrary: bs)
  case Nil
  then show ?case by simp
next
  case (Cons c cs)
  then obtain bc bcs where c: "utf8_encode_char c = Some bc" and cs: "utf8_encode cs = Some bcs"
    and bs: "bs = bc @ bcs"
    by (auto split: option.splits)
  from utf8_char_round_trip [OF c, of bcs] Cons.IH [OF cs] show ?case
    by (simp add: bs)
qed

lemma utf8_char_no_null:
  assumes "utf8_encode_char c = Some bs" and "c \<noteq> 0"
  shows "0 \<notin> set bs"
proof
  assume "0 \<in> set bs"
  from utf8_char_values [OF assms(1)] obtain ns where bs: "bs = map of_nat ns"
    and ns: "\<forall>n\<in>set ns. n < 256 \<and> (c \<noteq> 0 \<longrightarrow> n \<noteq> 0)"
    by blast
  from \<open>0 \<in> set bs\<close> bs obtain n where n: "n \<in> set ns" and z: "(of_nat n :: byte) = 0"
    by auto
  from n ns assms(2) have "n < 256" and "n \<noteq> 0"
    by auto
  from z have "unat (of_nat n :: byte) = 0"
    by simp
  with \<open>n < 256\<close> have "n = 0"
    by (simp add: byte_of_small)
  with \<open>n \<noteq> 0\<close> show False
    by simp
qed

lemma utf8_no_null: "utf8_encode s = Some bs \<Longrightarrow> 0 \<notin> set s \<Longrightarrow> 0 \<notin> set bs"
proof (induction s arbitrary: bs)
  case Nil
  then show ?case by simp
next
  case (Cons c cs)
  then obtain bc bcs where c: "utf8_encode_char c = Some bc" and cs: "utf8_encode cs = Some bcs"
    and bs: "bs = bc @ bcs"
    by (auto split: option.splits)
  from Cons.prems(2) have "c \<noteq> 0" and "0 \<notin> set cs"
    by auto
  with utf8_char_no_null [OF c] Cons.IH [OF cs] show ?case
    by (simp add: bs)
qed

lemma utf8_encode_total:
  "\<forall>c\<in>set s. c < 0x110000 \<and> \<not> (0xD800 \<le> c \<and> c \<le> 0xDFFF) \<Longrightarrow> \<exists>bs. utf8_encode s = Some bs"
proof (induction s)
  case Nil
  then show ?case by simp
next
  case (Cons c cs)
  then obtain bcs where cs: "utf8_encode cs = Some bcs"
    by auto
  from Cons.prems have "c < 0x110000 \<and> \<not> (0xD800 \<le> c \<and> c \<le> 0xDFFF)"
    by simp
  then have "utf8_encode_char c \<noteq> None"
    by (simp add: utf8_encode_char_def)
  with cs show ?case
    by auto
qed

subsection \<open>Reading the table back\<close>

lemma unpack_from_I_at:
  assumes "length pre = off" and "n < 2 ^ 32"
  shows "unpack_from_I (pre @ le_bytes 4 n @ post) off = Some n"
proof -
  have "slice (pre @ le_bytes 4 n @ post) off (off + 4) = le_bytes 4 n"
    using slice_middle [OF assms(1), of "le_bytes 4 n" post] by (simp add: length_le_bytes)
  moreover have "n mod 256 ^ 4 = n"
    using assms(2) by simp
  ultimately show ?thesis
    using assms(1) by (simp add: unpack_from_I_def le_value_le_bytes length_le_bytes)
qed

text \<open>The bytes of one table entry and of a whole table.\<close>

lemma read_entries_table:
  "read_entries (pre @ concat (map (\<lambda>b. le_bytes 4 (unat (whm_hash b)) @
                                        le_bytes 4 (unat (whm_offset b))) tbl) @ post)
     (length tbl) (length pre) acc =
   Inr (acc @ map (\<lambda>b. (unat (whm_hash b), unat (whm_offset b))) tbl, length pre + 8 * length tbl)"
proof (induction tbl arbitrary: pre acc)
  case Nil
  then show ?case by simp
next
  case (Cons b tbl)
  let ?rest = "concat (map (\<lambda>b. le_bytes 4 (unat (whm_hash b)) @
                                 le_bytes 4 (unat (whm_offset b))) tbl) @ post"
  let ?data = "pre @ le_bytes 4 (unat (whm_hash b)) @ le_bytes 4 (unat (whm_offset b)) @ ?rest"
  have h: "unat (whm_hash b) < 2 ^ 32" and o: "unat (whm_offset b) < 2 ^ 32"
    using unsigned_less [of "whm_hash b"] unsigned_less [of "whm_offset b"] by simp_all
  have r1: "unpack_from_I ?data (length pre) = Some (unat (whm_hash b))"
    using unpack_from_I_at [OF refl h] by simp
  have r2: "unpack_from_I ?data (length pre + 4) = Some (unat (whm_offset b))"
    using unpack_from_I_at [of "pre @ le_bytes 4 (unat (whm_hash b))" "length pre + 4", OF _ o]
    by (simp add: length_le_bytes)
  have len: "\<not> length pre + 8 > length ?data"
    by (simp add: length_le_bytes)
  have step: "read_entries ?data (Suc (length tbl)) (length pre) acc =
              read_entries ?data (length tbl) (length pre + 8)
                (acc @ [(unat (whm_hash b), unat (whm_offset b))])"
    using len by (simp only: read_entries.simps r1 r2 if_False split option.case)
  have "read_entries ((pre @ le_bytes 4 (unat (whm_hash b)) @ le_bytes 4 (unat (whm_offset b))) @ ?rest)
          (length tbl) (length (pre @ le_bytes 4 (unat (whm_hash b)) @ le_bytes 4 (unat (whm_offset b))))
          (acc @ [(unat (whm_hash b), unat (whm_offset b))]) =
        Inr ((acc @ [(unat (whm_hash b), unat (whm_offset b))]) @
               map (\<lambda>b. (unat (whm_hash b), unat (whm_offset b))) tbl,
             length (pre @ le_bytes 4 (unat (whm_hash b)) @ le_bytes 4 (unat (whm_offset b))) +
               8 * length tbl)"
    by (rule Cons.IH)
  then have "read_entries ?data (length tbl) (length pre + 8)
          (acc @ [(unat (whm_hash b), unat (whm_offset b))]) =
        Inr (acc @ map (\<lambda>b. (unat (whm_hash b), unat (whm_offset b))) (b # tbl),
             length pre + 8 * length (b # tbl))"
    by (simp add: length_le_bytes)
  with step show ?case
    by simp
qed

lemma scan_blob_string:
  assumes "0 \<notin> set s" and "k \<le> length s"
  shows "scan_blob (pre @ s @ 0 # post) (length (pre @ s @ 0 # post)) (length pre + k) =
         length pre + length s"
  using assms(2)
proof (induction "length s - k" arbitrary: k)
  case 0
  then have k: "k = length s" by simp
  have "(pre @ s @ 0 # post) ! (length pre + length s) = 0"
    by (simp add: nth_append)
  then show ?case
    by (subst scan_blob.simps) (simp add: k)
next
  case (Suc d)
  then have k: "k < length s" by simp
  then have "(pre @ s @ 0 # post) ! (length pre + k) = s ! k"
    by (simp add: nth_append)
  moreover have "s ! k \<noteq> 0"
    using assms(1) k by (metis nth_mem)
  ultimately have "scan_blob (pre @ s @ 0 # post) (length (pre @ s @ 0 # post)) (length pre + k) =
        scan_blob (pre @ s @ 0 # post) (length (pre @ s @ 0 # post)) (length pre + Suc k)"
    using k by (subst scan_blob.simps) simp
  also have "\<dots> = length pre + length s"
    using Suc k by (intro Suc.hyps(1)) simp_all
  finally show ?case .
qed

lemma decode_entry_string:
  assumes "utf8_encode s = Some enc" and "0 \<notin> set s"
  shows "decode_entry (pre @ enc @ 0 # post) (length (pre @ enc @ 0 # post)) (h, length pre) = (h, s)"
proof -
  let ?blob = "pre @ enc @ 0 # post"
  have nonull: "0 \<notin> set enc"
    using utf8_no_null [OF assms] .
  have scan: "scan_blob ?blob (length ?blob) (length pre) = length pre + length enc"
    using scan_blob_string [OF nonull, of 0 pre post] by simp
  have cut: "slice ?blob (length pre) (length pre + length enc) = enc"
    using slice_middle [OF refl, of pre enc "0 # post"] .
  have dec: "decode_bytes enc = s"
    using utf8_round_trip [OF assms(1)] by (simp add: decode_bytes_def)
  have inside: "length pre < length ?blob"
    by simp
  show ?thesis
    unfolding decode_entry_def by (simp only: prod.case inside if_True scan cut dec)
qed

lemma build_tables_data:
  "snd (build_tables texts tt td) =
   td @ concat (map (\<lambda>e. (case utf8_encode (str e) of Some bs \<Rightarrow> bs
                                | None \<Rightarrow> utf8_encode_replace (str e)) @ [0]) texts)"
  by (induction texts arbitrary: tt td) (simp_all add: Let_def)

lemma build_tables_table:
  "fst (build_tables texts tt td) =
   tt @ map (\<lambda>i. \<lparr>whm_hash = of_nat (hash (texts ! i)),
                   whm_offset = of_nat (length td + length (concat (map
                     (\<lambda>e. (case utf8_encode (str e) of Some bs \<Rightarrow> bs
                                | None \<Rightarrow> utf8_encode_replace (str e)) @ [0])
                     (take i texts))))\<rparr>) [0..<length texts]"
proof (induction texts arbitrary: tt td)
  case Nil
  then show ?case by simp
next
  case (Cons e rest)
  show ?case
    by (simp add: Let_def Cons.IH map_upt_Suc add.assoc del: upt_Suc)
qed

lemma length_table_bytes:
  "length (concat (map (\<lambda>b. le_bytes 4 (unat (whm_hash b)) @ le_bytes 4 (unat (whm_offset b))) tbl)) =
   8 * length tbl"
  by (induction tbl) (simp_all add: length_le_bytes)

lemma round_trip_lists:
  assumes gen: "GenerateDataBase texts = Inr data"
    and ok: "\<forall>e\<in>set texts. hash e < 2 ^ 32 \<and> 0 \<notin> set (str e) \<and>
               (\<forall>c\<in>set (str e). c < 0x110000 \<and> \<not> (0xD800 \<le> c \<and> c \<le> 0xDFFF))"
  shows "ParseWhmTable data = Inr (map (\<lambda>e. (hash e, str e)) texts)"
proof -
  define g :: "pystr ExportedTextEntry \<Rightarrow> bytes" where
    "g = (\<lambda>e. (case utf8_encode (str e) of Some bs \<Rightarrow> bs
                    | None \<Rightarrow> utf8_encode_replace (str e)) @ [0])"
  define eb :: "WhmTextData \<Rightarrow> bytes" where
    "eb = (\<lambda>b. le_bytes 4 (unat (whm_hash b)) @ le_bytes 4 (unat (whm_offset b)))"
  define tbl where "tbl = fst (build_tables texts [] [])"
  define blob where "blob = snd (build_tables texts [] [])"
  have blob: "blob = concat (map g texts)"
    unfolding blob_def g_def by (simp add: build_tables_data)
  have tbl: "tbl = map (\<lambda>i. \<lparr>whm_hash = of_nat (hash (texts ! i)),
                   whm_offset = of_nat (length (concat (map g (take i texts))))\<rparr>)
                [0..<length texts]"
    unfolding tbl_def g_def by (simp add: build_tables_table)
  have n: "length tbl = length texts"
    by (simp add: tbl)
  obtain count_bytes size_bytes where
    cb: "pack_I (length tbl) = Some count_bytes" and sb: "pack_I (length blob) = Some size_bytes"
    and data: "data = count_bytes @ concat (map eb tbl) @ size_bytes @ blob"
    using gen unfolding GenerateDataBase_def tbl_def blob_def eb_def
    by (auto split: prod.splits option.splits)
  from cb have nlt: "length tbl < 2 ^ 32" and cbe: "count_bytes = le_bytes 4 (length tbl)"
    by (auto simp add: pack_I_def split: if_splits)
  from sb have blt: "length blob < 2 ^ 32" and sbe: "size_bytes = le_bytes 4 (length blob)"
    by (auto simp add: pack_I_def split: if_splits)
  have tb: "length (concat (map eb tbl)) = 8 * length tbl"
    unfolding eb_def by (rule length_table_bytes)
  have len: "length data = 4 + 8 * length tbl + 4 + length blob"
    by (simp add: data cbe sbe tb length_le_bytes)
  have count: "unpack_from_I data 0 = Some (length tbl)"
    using unpack_from_I_at [of "[]" 0 "length tbl" "concat (map eb tbl) @ size_bytes @ blob"] nlt
    by (simp add: data cbe)
  have entries: "read_entries data (length tbl) 4 [] =
        Inr (map (\<lambda>b. (unat (whm_hash b), unat (whm_offset b))) tbl, 4 + 8 * length tbl)"
    using read_entries_table [of "le_bytes 4 (length tbl)" tbl "size_bytes @ blob" "[]"]
    by (simp add: data cbe eb_def length_le_bytes)
  have size: "unpack_from_I data (4 + 8 * length tbl) = Some (length blob)"
    using unpack_from_I_at [of "count_bytes @ concat (map eb tbl)" "4 + 8 * length tbl"
        "length blob" blob] blt
    by (simp add: data cbe sbe tb length_le_bytes)
  have cut: "slice data (4 + 8 * length tbl + 4) (4 + 8 * length tbl + 4 + length blob) = blob"
    using slice_middle [of "count_bytes @ concat (map eb tbl) @ size_bytes"
        "4 + 8 * length tbl + 4" blob "[]"]
    by (simp add: data cbe sbe tb length_le_bytes)
  have cut': "slice data (8 + 8 * length tbl) (8 + 8 * length tbl + length blob) = blob"
    using cut by simp
  have parse: "ParseWhmTable data =
        Inr (map (decode_entry blob (length blob))
               (map (\<lambda>b. (unat (whm_hash b), unat (whm_offset b))) tbl))"
    unfolding ParseWhmTable_def
    by (simp add: count entries size cut' len Let_def)
  have each: "decode_entry blob (length blob)
                (unat (whm_hash (tbl ! i)), unat (whm_offset (tbl ! i))) =
              (hash (texts ! i), str (texts ! i))" if i: "i < length texts" for i
  proof -
    let ?e = "texts ! i"
    let ?pre = "concat (map g (take i texts))"
    let ?post = "concat (map g (drop (Suc i) texts))"
    from i ok have h: "hash ?e < 2 ^ 32" and nonull: "0 \<notin> set (str ?e)"
      and valid: "\<forall>c\<in>set (str ?e). c < 0x110000 \<and> \<not> (0xD800 \<le> c \<and> c \<le> 0xDFFF)"
      by (auto simp add: all_set_conv_all_nth)
    from utf8_encode_total [OF valid] obtain enc where enc: "utf8_encode (str ?e) = Some enc"
      by blast
    have "texts = take i texts @ ?e # drop (Suc i) texts"
      using i by (rule id_take_nth_drop)
    then have "blob = concat (map g (take i texts @ ?e # drop (Suc i) texts))"
      by (simp only: blob)
    then have split: "blob = ?pre @ enc @ 0 # ?post"
      by (simp add: g_def enc)
    then have "length ?pre \<le> length blob"
      by simp
    with blt have olt: "length ?pre < 2 ^ 32"
      by simp
    have ti: "tbl ! i = \<lparr>whm_hash = of_nat (hash ?e), whm_offset = of_nat (length ?pre)\<rparr>"
      using i by (simp add: tbl)
    have uh: "unat (whm_hash (tbl ! i)) = hash ?e"
      using h by (simp add: ti unat_of_nat)
    have uo: "unat (whm_offset (tbl ! i)) = length ?pre"
      using olt by (simp add: ti unat_of_nat)
    from decode_entry_string [OF enc nonull, of ?pre ?post "hash ?e"] show ?thesis
      by (simp only: uh uo split [symmetric])
  qed
  have "map (decode_entry blob (length blob))
          (map (\<lambda>b. (unat (whm_hash b), unat (whm_offset b))) tbl) =
        map (\<lambda>e. (hash e, str e)) texts"
    by (rule nth_equalityI) (simp_all add: n each)
  with parse show ?thesis
    by simp
qed

text \<open>
  Claim C5. Let a list of entries be given whose hashes fit 32 bits and whose texts are
  free of U+0000 and consist of Unicode scalar values (what \<open>LoadText\<close> produces from a
  UTF-8 file). If \<open>GenerateDataBase\<close> writes the database (the count and the blob size
  fit their 32-bit fields), then \<open>ParseWhmTable\<close> reads from it exactly the pairs of hash
  and text of the entries, in their order, and hence the same set of pairs.
\<close>

theorem database_round_trip:
  "GenerateDataBase texts = Inr data \<and>
   (\<forall>e\<in>set texts. hash e < 2 ^ 32 \<and> 0 \<notin> set (str e) \<and>
      (\<forall>c\<in>set (str e). c < 0x110000 \<and> \<not> (0xD800 \<le> c \<and> c \<le> 0xDFFF))) \<longrightarrow>
   ParseWhmTable data = Inr (map (\<lambda>e. (hash e, str e)) texts)"
proof
  assume both: "GenerateDataBase texts = Inr data \<and>
   (\<forall>e\<in>set texts. hash e < 2 ^ 32 \<and> 0 \<notin> set (str e) \<and>
      (\<forall>c\<in>set (str e). c < 0x110000 \<and> \<not> (0xD800 \<le> c \<and> c \<le> 0xDFFF)))"
  from both have gen: "GenerateDataBase texts = Inr data"
    by (rule conjunct1)
  from both have ok: "\<forall>e\<in>set texts. hash e < 2 ^ 32 \<and> 0 \<notin> set (str e) \<and>
      (\<forall>c\<in>set (str e). c < 0x110000 \<and> \<not> (0xD800 \<le> c \<and> c \<le> 0xDFFF))"
    by (rule conjunct2)
  from gen ok show "ParseWhmTable data = Inr (map (\<lambda>e. (hash e, str e)) texts)"
    by (rule round_trip_lists)
qed

lemma le_bytes_4:
  "le_bytes 4 n = [of_nat (n mod 256), of_nat (n div 256 mod 256),
                   of_nat (n div 256 div 256 mod 256), of_nat (n div 256 div 256 div 256 mod 256)]"
proof -
  have four: "(4 :: nat) = Suc (Suc (Suc (Suc 0)))"
    by simp
  show ?thesis
    by (simp only: four le_bytes.simps)
qed

lemma enc_Hi: "utf8_encode (str_of ''Hi'') = Some [72, 105]"
  by (simp add: str_of_def utf8_encode_char_def)

lemma enc_mixed:
  "utf8_encode [0x65E5, 0x41, 0xE9, 0x1F600] =
     Some [230, 151, 165, 65, 195, 169, 240, 159, 152, 128]"
  by (simp add: utf8_encode_char_def)

lemma example_tables:
  "build_tables [\<lparr>hash = 1, str = str_of ''Hi''\<rparr>,
                 \<lparr>hash = 0xDEADBEEF, str = [0x65E5, 0x41, 0xE9, 0x1F600]\<rparr>] [] [] =
   ([\<lparr>whm_hash = 1, whm_offset = 0\<rparr>, \<lparr>whm_hash = 0xDEADBEEF, whm_offset = 3\<rparr>],
    [72, 105, 0, 230, 151, 165, 65, 195, 169, 240, 159, 152, 128, 0])"
  by (simp only: build_tables.simps Let_def ExportedTextEntry.simps enc_Hi enc_mixed option.case)
     simp

lemma example_database:
  "GenerateDataBase [\<lparr>hash = 1, str = str_of ''Hi''\<rparr>,
                     \<lparr>hash = 0xDEADBEEF, str = [0x65E5, 0x41, 0xE9, 0x1F600]\<rparr>] =
   Inr [2, 0, 0, 0, 1, 0, 0, 0, 0, 0, 0, 0, 239, 190, 173, 222, 3, 0, 0, 0, 14, 0, 0, 0,
        72, 105, 0, 230, 151, 165, 65, 195, 169, 240, 159, 152, 128, 0]"
  unfolding GenerateDataBase_def example_tables
  by (simp add: pack_I_def le_bytes_4)

theorem database_round_trip_witness:
  "GenerateDataBase [\<lparr>hash = 1, str = str_of ''Hi''\<rparr>,
                     \<lparr>hash = 0xDEADBEEF, str = [0x65E5, 0x41, 0xE9, 0x1F600]\<rparr>] =
     Inr [2, 0, 0, 0, 1, 0, 0, 0, 0, 0, 0, 0, 239, 190, 173, 222, 3, 0, 0, 0, 14, 0, 0, 0,
          72, 105, 0, 230, 151, 165, 65, 195, 169, 240, 159, 152, 128, 0] \<and>
   ParseWhmTable [2, 0, 0, 0, 1, 0, 0, 0, 0, 0, 0, 0, 239, 190, 173, 222, 3, 0, 0, 0, 14, 0, 0, 0,
                  72, 105, 0, 230, 151, 165, 65, 195, 169, 240, 159, 152, 128, 0] =
     Inr [(1, str_of ''Hi''), (0xDEADBEEF, [0x65E5, 0x41, 0xE9, 0x1F600])]"
proof -
  let ?texts = "[\<lparr>hash = 1, str = str_of ''Hi''\<rparr>,
                 \<lparr>hash = 0xDEADBEEF, str = [0x65E5, 0x41, 0xE9, 0x1F600]\<rparr>]"
  let ?data = "[2, 0, 0, 0, 1, 0, 0, 0, 0, 0, 0, 0, 239, 190, 173, 222, 3, 0, 0, 0, 14, 0, 0, 0,
                72, 105, 0, 230, 151, 165, 65, 195, 169, 240, 159, 152, 128, 0] :: bytes"
  have ok: "\<forall>e\<in>set ?texts. hash e < 2 ^ 32 \<and> 0 \<notin> set (str e) \<and>
      (\<forall>c\<in>set (str e). c < 0x110000 \<and> \<not> (0xD800 \<le> c \<and> c \<le> 0xDFFF))"
    by (simp add: str_of_def)
  from example_database ok
  have "GenerateDataBase ?texts = Inr ?data \<and>
        (\<forall>e\<in>set ?texts. hash e < 2 ^ 32 \<and> 0 \<notin> set (str e) \<and>
           (\<forall>c\<in>set (str e). c < 0x110000 \<and> \<not> (0xD800 \<le> c \<and> c \<le> 0xDFFF)))"
    by (intro conjI)
  with database_round_trip [of ?texts ?data]
  have "ParseWhmTable ?data = Inr (map (\<lambda>e. (hash e, str e)) ?texts)"
    by (rule mp)
  with example_database show ?thesis
    by simp
qed

section \<open>Properties of the San Andreas encoder\<close>

subsection \<open>Writing and reading a file\<close>

lemma fpos_write [simp]: "fpos (f_write bs f) = fpos f + length bs"
  by (simp add: f_write_def)

lemma fpos_seek [simp]: "fpos (f_seek p f) = p"
  by (simp add: f_seek_def)

lemma content_seek [simp]: "content (f_seek p f) = content f"
  by (simp add: f_seek_def)

lemma content_write:
  "content (f_write bs f) p =
     (if fpos f \<le> p \<and> p < fpos f + length bs then bs ! (p - fpos f) else content f p)"
  by (simp add: f_write_def)

lemma content_write_outside:
  "p < fpos f \<or> fpos f + length bs \<le> p \<Longrightarrow> content (f_write bs f) p = content f p"
  by (auto simp add: content_write)

lemma f_read_eq:
  "(\<And>p. q \<le> p \<Longrightarrow> p < q + n \<Longrightarrow> content f p = content g p) \<Longrightarrow> f_read f q n = f_read g q n"
  by (simp add: f_read_def)

lemma f_read_written: "f_read (f_write bs f) (fpos f) (length bs) = bs"
  by (rule nth_equalityI) (simp_all add: f_read_def content_write)

lemma f_read_seek [simp]: "f_read (f_seek p f) q n = f_read f q n"
  by (simp add: f_read_def)

lemma pack_int_I_bytes: "pack_int_I (int n) = Some bs \<Longrightarrow> bs = le_bytes 4 n \<and> n < 2 ^ 32"
  by (auto simp add: pack_int_I_def split: if_splits)

lemma write_entries_keys:
  assumes "write_entries es tdat d k f = Inr (f', d')" and "k + 8 * length es \<le> d"
  shows "(\<forall>j<length es. f_read f' (k + 8 * j + 4) 4 = le_bytes 4 (fst (es ! j))) \<and>
         (\<forall>p<k. content f' p = content f p) \<and> d \<le> d'"
  using assms
proof (induction es arbitrary: d k f)
  case Nil
  then show ?case by simp
next
  case (Cons e es)
  obtain hash_key val where e: "e = (hash_key, val)"
    by (cases e)
  from Cons.prems(1) obtain enc offset_bytes hash_bytes where
    enc: "utf8_encode val = Some enc"
    and ob: "pack_int_I (int d - int tdat - 8) = Some offset_bytes"
    and hb: "pack_int_I (int hash_key) = Some hash_bytes"
    and rest: "write_entries es tdat (d + length enc + 1) (k + 8)
                 (f_write (offset_bytes @ hash_bytes)
                    (f_seek k (f_write (enc @ [0]) (f_seek d f)))) = Inr (f', d')"
    by (auto simp add: e Let_def split: option.splits)
  let ?f1 = "f_write (enc @ [0]) (f_seek d f)"
  let ?f2 = "f_write (offset_bytes @ hash_bytes) (f_seek k ?f1)"
  from ob have ol: "length offset_bytes = 4"
    by (auto simp add: pack_int_I_def length_le_bytes split: if_splits)
  from pack_int_I_bytes [OF hb] have hbe: "hash_bytes = le_bytes 4 hash_key"
    by simp
  then have hl: "length hash_bytes = 4"
    by (simp add: length_le_bytes)
  from Cons.prems(2) have room: "k + 8 + 8 * length es \<le> d + length enc + 1"
    by simp
  from Cons.IH [OF rest room] have
    later: "\<forall>j<length es. f_read f' (k + 8 + 8 * j + 4) 4 = le_bytes 4 (fst (es ! j))"
    and kept: "\<forall>p<k + 8. content f' p = content ?f2 p"
    and grow: "d + length enc + 1 \<le> d'"
    by simp_all
  have key: "f_read ?f2 (k + 4) 4 = hash_bytes"
    by (rule nth_equalityI) (simp_all add: f_read_def content_write ol hl nth_append)
  have "f_read f' (k + 4) 4 = f_read ?f2 (k + 4) 4"
    by (rule f_read_eq) (simp add: kept)
  have head: "f_read f' (k + 4) 4 = le_bytes 4 hash_key"
    using \<open>f_read f' (k + 4) 4 = f_read ?f2 (k + 4) 4\<close> key hbe by simp
  have keys: "\<forall>j<length (e # es). f_read f' (k + 8 * j + 4) 4 = le_bytes 4 (fst ((e # es) ! j))"
  proof (intro allI impI)
    fix j assume "j < length (e # es)"
    then show "f_read f' (k + 8 * j + 4) 4 = le_bytes 4 (fst ((e # es) ! j))"
    proof (cases j)
      case 0
      with head e show ?thesis by simp
    next
      case (Suc j')
      with \<open>j < length (e # es)\<close> have "j' < length es" by simp
      with later have "f_read f' (k + 8 + 8 * j' + 4) 4 = le_bytes 4 (fst (es ! j'))"
        by simp
      moreover have "k + 8 * j + 4 = k + 8 + 8 * j' + 4"
        using Suc by simp
      ultimately show ?thesis using Suc by simp
    qed
  qed
  have below: "\<forall>p<k. content f' p = content f p"
  proof (intro allI impI)
    fix p assume p: "p < k"
    with kept have "content f' p = content ?f2 p" by simp
    also have "\<dots> = content ?f1 p"
      using p by (simp add: content_write)
    also have "\<dots> = content f p"
      using p Cons.prems(2) by (simp add: content_write)
    finally show "content f' p = content f p" .
  qed
  from keys below grow show ?case
    by simp
qed

lemma length_ljust8: "length bs \<le> 8 \<Longrightarrow> length (ljust8 bs) = 8"
  by (simp add: ljust8_def)

lemma length_sort_entries: "length (sort (es :: gxt_table)) = length es"
  by simp

lemma f_read_frame:
  "q + n \<le> fpos f \<or> fpos f + length bs \<le> q \<Longrightarrow> f_read (f_write bs f) q n = f_read f q n"
  by (rule f_read_eq) (auto simp add: content_write)

lemma f_read_here: "fpos f = q \<Longrightarrow> length bs = n \<Longrightarrow> f_read (f_write bs f) q n = bs"
  using f_read_written [of bs f] by simp

text \<open>One table step, up to the entry loop.\<close>

lemma table_step:
  fixes f :: pyfile and name8 :: bytes
  assumes n8: "length name8 = 8" and kl: "length kbo_bytes = 4" and sl: "length kbs_bytes = 4"
    and dl: "length dbs_bytes = 4" and sep: "ft + 12 \<le> fk"
    and f3: "f3 = (if named then f_write name8 (f_seek fk (f_write kbo_bytes (f_write name8 (f_seek ft f))))
                   else f_seek fk (f_write kbo_bytes (f_write name8 (f_seek ft f))))"
    and f5: "f5 = f_write dbs_bytes (f_write [0x54, 0x44, 0x41, 0x54]
                    (f_seek (fpos (f_write kbs_bytes (f_write [0x54, 0x4B, 0x45, 0x59] f3)) + n)
                       (f_write kbs_bytes (f_write [0x54, 0x4B, 0x45, 0x59] f3))))"
    and start: "start = fk + (if named then 8 else 0)"
  shows "fpos (f_write kbs_bytes (f_write [0x54, 0x4B, 0x45, 0x59] f3)) = start + 8"
    and "fpos f5 = start + 8 + n + 8"
    and "f_read f5 (ft + 8) 4 = kbo_bytes"
    and "f_read f5 start 4 = [0x54, 0x4B, 0x45, 0x59]"
    and "f_read f5 (start + 4) 4 = kbs_bytes"
    and "\<And>p. p < ft \<or> (ft + 12 \<le> p \<and> p < fk) \<Longrightarrow> content f5 p = content f p"
proof -
  have p3: "fpos f3 = start"
    by (simp add: f3 start n8)
  show p4: "fpos (f_write kbs_bytes (f_write [0x54, 0x4B, 0x45, 0x59] f3)) = start + 8"
    by (simp add: p3 sl)
  show "fpos f5 = start + 8 + n + 8"
    by (simp add: f5 p3 sl dl)
  have lo: "ft + 12 \<le> start" and lo2: "fk \<le> start"
    using sep by (simp_all add: start)
  have r3: "f_read f3 (ft + 8) 4 = kbo_bytes"
    using sep by (simp add: f3 f_read_frame f_read_here n8 kl)
  have "f_read f5 (ft + 8) 4 = f_read f3 (ft + 8) 4"
    using lo by (simp add: f5 f_read_frame p3 sl dl)
  with r3 show "f_read f5 (ft + 8) 4 = kbo_bytes"
    by simp
  show "f_read f5 start 4 = [0x54, 0x4B, 0x45, 0x59]"
    by (simp add: f5 f_read_frame f_read_here p3 sl dl)
  show "f_read f5 (start + 4) 4 = kbs_bytes"
    by (simp add: f5 f_read_frame f_read_here p3 sl dl)
  show "content f5 p = content f p" if "p < ft \<or> (ft + 12 \<le> p \<and> p < fk)" for p
  proof -
    from that lo2 sep have "p < start"
      by auto
    then have "content f5 p = content f3 p"
      by (simp add: f5 content_write_outside p3 sl dl)
    also from that sep have "\<dots> = content f p"
      by (auto simp add: f3 content_write_outside n8 kl)
    finally show ?thesis .
  qed
qed

subsection \<open>The layout of the key blocks\<close>

lemma write_tables_layout:
  assumes "write_tables ts ft fk fk f = Inr f'" and "ft + 12 * length ts \<le> fk"
  shows "(\<forall>i<length ts. \<exists>K.
            f_read f' (ft + 12 * i + 8) 4 = le_bytes 4 K \<and>
            f_read f' (K + (if fst (ts ! i) \<noteq> MAIN then 8 else 0)) 4 = [0x54, 0x4B, 0x45, 0x59] \<and>
            f_read f' (K + (if fst (ts ! i) \<noteq> MAIN then 8 else 0) + 4) 4 =
              le_bytes 4 (length (snd (ts ! i)) * 8) \<and>
            (\<forall>j<length (snd (ts ! i)).
               f_read f' (K + (if fst (ts ! i) \<noteq> MAIN then 8 else 0) + 8 + 8 * j + 4) 4 =
                 le_bytes 4 (fst (sort (snd (ts ! i)) ! j)))) \<and>
         (\<forall>p. p < ft \<or> (ft + 12 * length ts \<le> p \<and> p < fk) \<longrightarrow> content f' p = content f p)"
  using assms
proof (induction ts arbitrary: ft fk f)
  case Nil
  then show ?case by simp
next
  case (Cons t rest)
  obtain name entries where t: "t = (name, entries)"
    by (cases t)
  define name8 where "name8 = ljust8 (take 7 (encode_ascii_ignore name))"
  define named where "named \<longleftrightarrow> name \<noteq> MAIN"
  define start where "start = fk + (if named then 8 else 0)"
  have n8: "length name8 = 8"
    unfolding name8_def by (rule length_ljust8) simp
  from Cons.prems(1) obtain dbs kbo_bytes kbs_bytes dbs_bytes where
    gd: "get_data_block_size entries = Inr dbs"
    and kb: "pack_int_I (int fk) = Some kbo_bytes"
    and sb: "pack_int_I (int (length entries * 8)) = Some kbs_bytes"
    and db: "pack_int_I (int dbs) = Some dbs_bytes"
    by (auto simp add: t Let_def split: sum.splits option.splits)
  define f3 where "f3 = (if named
      then f_write name8 (f_seek fk (f_write kbo_bytes (f_write name8 (f_seek ft f))))
      else f_seek fk (f_write kbo_bytes (f_write name8 (f_seek ft f))))"
  define f4 where "f4 = f_write kbs_bytes (f_write [0x54, 0x4B, 0x45, 0x59] f3)"
  define f5 where "f5 = f_write dbs_bytes (f_write [0x54, 0x44, 0x41, 0x54]
                          (f_seek (fpos f4 + length entries * 8) f4))"
  from Cons.prems(1) gd kb sb db obtain f6 end_pos where
    we: "write_entries (sort entries) (fpos f4 + length entries * 8) (fpos f5) (fpos f4) f5 =
           Inr (f6, end_pos)"
    and rec: "write_tables rest (ft + 12) end_pos end_pos f6 = Inr f'"
    unfolding f5_def f4_def f3_def named_def name8_def
    by (auto simp add: t Let_def split: sum.splits option.splits if_splits)
  from pack_int_I_bytes [OF kb] have kbe: "kbo_bytes = le_bytes 4 fk" by simp
  from pack_int_I_bytes [OF sb] have sbe: "kbs_bytes = le_bytes 4 (length entries * 8)" by simp
  from pack_int_I_bytes [OF db] have dbe: "dbs_bytes = le_bytes 4 dbs" by simp
  have kl: "length kbo_bytes = 4" and sl: "length kbs_bytes = 4" and dl: "length dbs_bytes = 4"
    by (simp_all add: kbe sbe dbe length_le_bytes)
  from Cons.prems(2) have sep: "ft + 12 \<le> fk"
    by simp
  note step = table_step [OF n8 kl sl dl sep f3_def f5_def [unfolded f4_def] start_def,
      folded f4_def]
  have p4: "fpos f4 = start + 8" and p5: "fpos f5 = start + 8 + length entries * 8 + 8"
    using step(1,2) by simp_all
  have room: "fpos f4 + 8 * length (sort entries) \<le> fpos f5"
    by (simp add: p4 p5)
  from write_entries_keys [OF we room] have
    keys6: "\<forall>j<length entries. f_read f6 (start + 8 + 8 * j + 4) 4 =
                le_bytes 4 (fst (sort entries ! j))"
    and low6: "\<forall>p < start + 8. content f6 p = content f5 p"
    and grow: "fpos f5 \<le> end_pos"
    by (simp_all add: p4)
  have lo: "ft + 12 \<le> start" and lo2: "fk \<le> start"
    using sep by (simp_all add: start_def)
  from Cons.prems(2) have sep': "ft + 12 + 12 * length rest \<le> end_pos"
    using grow lo2 by (simp add: p5)
  from Cons.IH [OF rec sep'] have
    tabs: "\<forall>i<length rest. \<exists>K.
            f_read f' (ft + 12 + 12 * i + 8) 4 = le_bytes 4 K \<and>
            f_read f' (K + (if fst (rest ! i) \<noteq> MAIN then 8 else 0)) 4 = [0x54, 0x4B, 0x45, 0x59] \<and>
            f_read f' (K + (if fst (rest ! i) \<noteq> MAIN then 8 else 0) + 4) 4 =
              le_bytes 4 (length (snd (rest ! i)) * 8) \<and>
            (\<forall>j<length (snd (rest ! i)).
               f_read f' (K + (if fst (rest ! i) \<noteq> MAIN then 8 else 0) + 8 + 8 * j + 4) 4 =
                 le_bytes 4 (fst (sort (snd (rest ! i)) ! j)))"
    and frame': "\<forall>p. p < ft + 12 \<or> (ft + 12 + 12 * length rest \<le> p \<and> p < end_pos) \<longrightarrow>
                   content f' p = content f6 p"
    by blast+
  have keep: "f_read f' q n = f_read f5 q n"
    if "q + n \<le> ft + 12 \<or> (fk \<le> q \<and> q + n \<le> start + 8)" and "0 < n" for q n
  proof (rule f_read_eq)
    fix p assume p: "q \<le> p" "p < q + n"
    with that lo have "p < start + 8"
      by auto
    with low6 have a: "content f6 p = content f5 p"
      by simp
    from p that Cons.prems(2) grow p5 have
      "p < ft + 12 \<or> (ft + 12 + 12 * length rest \<le> p \<and> p < end_pos)"
      by auto
    with frame' have "content f' p = content f6 p"
      by blast
    with a show "content f' p = content f5 p"
      by simp
  qed
  have keep6: "f_read f' q n = f_read f6 q n"
    if "fk \<le> q" and "q + n \<le> end_pos" for q n
  proof (rule f_read_eq)
    fix p assume p: "q \<le> p" "p < q + n"
    with that Cons.prems(2) have
      "p < ft + 12 \<or> (ft + 12 + 12 * length rest \<le> p \<and> p < end_pos)"
      by auto
    with frame' show "content f' p = content f6 p"
      by blast
  qed
  have h1: "f_read f' (ft + 8) 4 = le_bytes 4 fk"
    using keep [of "ft + 8" 4] step(3) by (simp add: kbe)
  have h2: "f_read f' start 4 = [0x54, 0x4B, 0x45, 0x59]"
    using keep [of start 4] step(4) lo2 by simp
  have h3: "f_read f' (start + 4) 4 = le_bytes 4 (length entries * 8)"
    using keep [of "start + 4" 4] step(5) lo2 by (simp add: sbe)
  have h4: "\<forall>j<length entries. f_read f' (start + 8 + 8 * j + 4) 4 =
                le_bytes 4 (fst (sort entries ! j))"
  proof (intro allI impI)
    fix j assume j: "j < length entries"
    then have "start + 8 + 8 * j + 4 + 4 \<le> end_pos"
      using grow p5 by simp
    with keep6 [of "start + 8 + 8 * j + 4" 4] lo2 keys6 j
    show "f_read f' (start + 8 + 8 * j + 4) 4 = le_bytes 4 (fst (sort entries ! j))"
      by simp
  qed
  have head: "\<exists>K.
            f_read f' (ft + 8) 4 = le_bytes 4 K \<and>
            f_read f' (K + (if name \<noteq> MAIN then 8 else 0)) 4 = [0x54, 0x4B, 0x45, 0x59] \<and>
            f_read f' (K + (if name \<noteq> MAIN then 8 else 0) + 4) 4 =
              le_bytes 4 (length entries * 8) \<and>
            (\<forall>j<length entries.
               f_read f' (K + (if name \<noteq> MAIN then 8 else 0) + 8 + 8 * j + 4) 4 =
                 le_bytes 4 (fst (sort entries ! j)))"
    using h1 h2 h3 h4 unfolding start_def named_def by (intro exI [of _ fk]) simp
  have all: "\<forall>i<length (t # rest). \<exists>K.
            f_read f' (ft + 12 * i + 8) 4 = le_bytes 4 K \<and>
            f_read f' (K + (if fst ((t # rest) ! i) \<noteq> MAIN then 8 else 0)) 4 =
              [0x54, 0x4B, 0x45, 0x59] \<and>
            f_read f' (K + (if fst ((t # rest) ! i) \<noteq> MAIN then 8 else 0) + 4) 4 =
              le_bytes 4 (length (snd ((t # rest) ! i)) * 8) \<and>
            (\<forall>j<length (snd ((t # rest) ! i)).
               f_read f' (K + (if fst ((t # rest) ! i) \<noteq> MAIN then 8 else 0) + 8 + 8 * j + 4) 4 =
                 le_bytes 4 (fst (sort (snd ((t # rest) ! i)) ! j)))"
  proof (intro allI impI)
    fix i assume i: "i < length (t # rest)"
    show "\<exists>K.
            f_read f' (ft + 12 * i + 8) 4 = le_bytes 4 K \<and>
            f_read f' (K + (if fst ((t # rest) ! i) \<noteq> MAIN then 8 else 0)) 4 =
              [0x54, 0x4B, 0x45, 0x59] \<and>
            f_read f' (K + (if fst ((t # rest) ! i) \<noteq> MAIN then 8 else 0) + 4) 4 =
              le_bytes 4 (length (snd ((t # rest) ! i)) * 8) \<and>
            (\<forall>j<length (snd ((t # rest) ! i)).
               f_read f' (K + (if fst ((t # rest) ! i) \<noteq> MAIN then 8 else 0) + 8 + 8 * j + 4) 4 =
                 le_bytes 4 (fst (sort (snd ((t # rest) ! i)) ! j)))"
    proof (cases i)
      case 0
      with head t show ?thesis by simp
    next
      case (Suc i')
      with i have i': "i' < length rest" by simp
      have pos: "ft + 12 * i + 8 = ft + 12 + 12 * i' + 8"
        using Suc by simp
      from tabs i' show ?thesis
        unfolding pos Suc by simp
    qed
  qed
  have frame: "\<forall>p. p < ft \<or> (ft + 12 * length (t # rest) \<le> p \<and> p < fk) \<longrightarrow>
                   content f' p = content f p"
  proof (intro allI impI)
    fix p assume p: "p < ft \<or> (ft + 12 * length (t # rest) \<le> p \<and> p < fk)"
    with grow p5 lo2 have "p < ft + 12 \<or> (ft + 12 + 12 * length rest \<le> p \<and> p < end_pos)"
      by auto
    with frame' have "content f' p = content f6 p"
      by blast
    also from p lo2 sep have "p < start + 8"
      by auto
    with low6 have "content f6 p = content f5 p"
      by simp
    also from p have "p < ft \<or> (ft + 12 \<le> p \<and> p < fk)"
      by auto
    then have "content f5 p = content f p"
      by (rule step(6))
    finally show "content f' p = content f p" .
  qed
  from all frame show ?case
    by blast
qed

lemma write_entries_bound:
  "write_entries es tdat d k f = Inr r \<Longrightarrow> \<forall>e\<in>set es. fst e < 2 ^ 32"
proof (induction es arbitrary: d k f)
  case Nil
  then show ?case by simp
next
  case (Cons e es)
  obtain hash_key val where e: "e = (hash_key, val)"
    by (cases e)
  from Cons.prems obtain d1 k1 f1 hash_bytes where
    hb: "pack_int_I (int hash_key) = Some hash_bytes"
    and rest: "write_entries es tdat d1 k1 f1 = Inr r"
    by (auto simp add: e Let_def split: option.splits)
  from pack_int_I_bytes [OF hb] Cons.IH [OF rest] show ?case
    by (simp add: e)
qed

lemma write_tables_bound:
  "write_tables ts ft fk kbo f = Inr f' \<Longrightarrow> \<forall>t\<in>set ts. \<forall>e\<in>set (snd t). fst e < 2 ^ 32"
proof (induction ts arbitrary: ft fk kbo f)
  case Nil
  then show ?case by simp
next
  case (Cons t rest)
  obtain name entries where t: "t = (name, entries)"
    by (cases t)
  from Cons.prems obtain tdat d k f5 r ft1 fk1 kbo1 f6 where
    we: "write_entries (sort entries) tdat d k f5 = Inr r"
    and rec: "write_tables rest ft1 fk1 kbo1 f6 = Inr f'"
    by (auto simp add: t Let_def split: sum.splits option.splits prod.splits)
  from write_entries_bound [OF we] have "\<forall>e\<in>set entries. fst e < 2 ^ 32"
    by simp
  with Cons.IH [OF rec] show ?case
    by (simp add: t)
qed

lemma sorted_map_fst:
  fixes xs :: "(nat \<times> nat list) list"
  shows "sorted xs \<Longrightarrow> sorted (map fst xs)"
  by (induction xs) (auto simp add: less_eq_prod_def)

lemma strictly_ascending:
  fixes entries :: gxt_table
  assumes "distinct (map fst entries)"
  shows "sorted_wrt (<) (map fst (sort entries))"
proof -
  have "sorted (map fst (sort entries))"
    by (rule sorted_map_fst) simp
  moreover have "distinct (map fst (sort entries))"
    using assms by (simp add: distinct_map)
  ultimately show ?thesis
    by (simp add: strict_sorted_iff)
qed

lemma save_as_gxt_layout:
  assumes sv: "save_as_gxt d = Inr f" and i: "i < length d"
    and t: "sort_key table_sort d ! i = (table_name, entries)"
  shows "(\<exists>key_block_offset.
            f_read f (12 + 12 * i + 8) 4 = le_bytes 4 key_block_offset \<and>
            f_read f (key_block_offset + (if table_name \<noteq> MAIN then 8 else 0)) 4 =
              [0x54, 0x4B, 0x45, 0x59] \<and>
            f_read f (key_block_offset + (if table_name \<noteq> MAIN then 8 else 0) + 4) 4 =
              le_bytes 4 (length entries * 8) \<and>
            (\<forall>j<length entries.
               f_read f (key_block_offset + (if table_name \<noteq> MAIN then 8 else 0) + 8 + 8 * j + 4) 4 =
                 le_bytes 4 (fst (sort entries ! j)))) \<and>
         (\<forall>e\<in>set entries. fst e < 2 ^ 32)"
proof -
  define ts where "ts = sort_key table_sort d"
  have len: "length ts = length d"
    unfolding ts_def by simp
  from sv obtain f0 where wt: "write_tables ts 12 (12 + length d * 12) (12 + length d * 12) f0 = Inr f"
    unfolding save_as_gxt_def SizeOfTABL_def ts_def Let_def
    by (auto split: option.splits)
  have fit: "12 + 12 * length ts \<le> 12 + length d * 12"
    by (simp add: len)
  from i have i': "i < length ts"
    by (simp add: len)
  from t have ti: "ts ! i = (table_name, entries)"
    by (simp add: ts_def)
  from write_tables_layout [OF wt fit] i' have
    "\<exists>K. f_read f (12 + 12 * i + 8) 4 = le_bytes 4 K \<and>
         f_read f (K + (if fst (ts ! i) \<noteq> MAIN then 8 else 0)) 4 = [0x54, 0x4B, 0x45, 0x59] \<and>
         f_read f (K + (if fst (ts ! i) \<noteq> MAIN then 8 else 0) + 4) 4 =
           le_bytes 4 (length (snd (ts ! i)) * 8) \<and>
         (\<forall>j<length (snd (ts ! i)).
            f_read f (K + (if fst (ts ! i) \<noteq> MAIN then 8 else 0) + 8 + 8 * j + 4) 4 =
              le_bytes 4 (fst (sort (snd (ts ! i)) ! j)))"
    by blast
  then have first: "\<exists>key_block_offset.
            f_read f (12 + 12 * i + 8) 4 = le_bytes 4 key_block_offset \<and>
            f_read f (key_block_offset + (if table_name \<noteq> MAIN then 8 else 0)) 4 =
              [0x54, 0x4B, 0x45, 0x59] \<and>
            f_read f (key_block_offset + (if table_name \<noteq> MAIN then 8 else 0) + 4) 4 =
              le_bytes 4 (length entries * 8) \<and>
            (\<forall>j<length entries.
               f_read f (key_block_offset + (if table_name \<noteq> MAIN then 8 else 0) + 8 + 8 * j + 4) 4 =
                 le_bytes 4 (fst (sort entries ! j)))"
    by (simp only: ti fst_conv snd_conv)
  from i' ti have "(table_name, entries) \<in> set ts"
    by (metis nth_mem)
  with write_tables_bound [OF wt] have "\<forall>e\<in>set entries. fst e < 2 ^ 32"
    by fastforce
  with first show ?thesis
    by (rule conjI)
qed

subsection \<open>The example document\<close>

lemma fpos_open: "fpos f_open = 0"
  by (simp add: f_open_def)

lemma example_sorted: "sort [(2 :: nat, [0x62 :: nat]), (1, [0x61])] = [(1, [0x61]), (2, [0x62])]"
  by simp

lemma example_gxt_saved: "save_as_gxt example_gxt = Inr example_file"
proof -
  have "\<exists>f. save_as_gxt example_gxt = Inr f"
    by (simp add: save_as_gxt_def example_gxt_def SizeOfTABL_def pack_int_I_def Let_def
        table_sort_def utf8_encode_char_def fpos_open
        length_le_bytes length_ljust8 encode_ascii_ignore_def MAIN_def ljust8_def)
  then show ?thesis
    by (auto simp add: example_file_def)
qed

subsection \<open>The order of the keys\<close>

text \<open>
  Claim C8. In the file that \<open>save_as_gxt\<close> writes, the \<open>TABL\<close> record of the \<open>i\<close>-th
  table (in the order the tables are written) holds the offset of its key block; there,
  behind the eight name bytes of a table other than \<open>MAIN\<close>, stand the tag \<open>TKEY\<close>, the
  size of the key block and one eight-byte record per entry, whose hash field is the
  hash of the \<open>j\<close>-th entry of the sorted table. Every hash fits 32 bits and the hashes
  are written in ascending order. A table is a \<open>dict\<close> in the source and an association
  list here: when its keys are distinct, as the keys of a \<open>dict\<close> always are, the order
  is strictly ascending.
\<close>

theorem save_as_gxt_keys_ascending:
  "save_as_gxt d = Inr f \<and> i < length d \<and>
   sort_key table_sort d ! i = (table_name, entries) \<longrightarrow>
     (\<exists>key_block_offset.
        f_read f (12 + 12 * i + 8) 4 = le_bytes 4 key_block_offset \<and>
        f_read f (key_block_offset + (if table_name \<noteq> MAIN then 8 else 0)) 4 =
          [0x54, 0x4B, 0x45, 0x59] \<and>
        f_read f (key_block_offset + (if table_name \<noteq> MAIN then 8 else 0) + 4) 4 =
          le_bytes 4 (length entries * 8) \<and>
        (\<forall>j<length entries.
           f_read f (key_block_offset + (if table_name \<noteq> MAIN then 8 else 0) + 8 + 8 * j + 4) 4 =
             le_bytes 4 (fst (sort entries ! j)))) \<and>
     (\<forall>e\<in>set entries. fst e < 2 ^ 32) \<and>
     sorted (map fst (sort entries)) \<and>
     (distinct (map fst entries) \<longrightarrow> sorted_wrt (<) (map fst (sort entries)))"
proof -
  have "sorted (map fst (sort entries))"
    by (rule sorted_map_fst) simp
  with save_as_gxt_layout [of d f i table_name entries] strictly_ascending [of entries]
  show ?thesis
    by blast
qed

theorem save_as_gxt_keys_ascending_witness:
  "save_as_gxt example_gxt = Inr example_file \<and> (0 :: nat) < length example_gxt \<and>
   sort_key table_sort example_gxt ! 0 = (MAIN, [(2, [0x62]), (1, [0x61])]) \<and>
   distinct (map fst [(2 :: nat, [0x62 :: nat]), (1, [0x61])]) \<and>
   (\<exists>key_block_offset.
      f_read example_file 20 4 = le_bytes 4 key_block_offset \<and>
      f_read example_file key_block_offset 4 = [0x54, 0x4B, 0x45, 0x59] \<and>
      f_read example_file (key_block_offset + 4) 4 = le_bytes 4 16 \<and>
      f_read example_file (key_block_offset + 8 + 4) 4 = le_bytes 4 1 \<and>
      f_read example_file (key_block_offset + 8 + 8 + 4) 4 = le_bytes 4 2) \<and>
   sorted_wrt (<) [1 :: nat, 2]"
proof -
  define es :: gxt_table where "es = [(2, [0x62]), (1, [0x61])]"
  have srt: "sort es = [(1, [0x61]), (2, [0x62])]"
    unfolding es_def by (rule example_sorted)
  have h1: "save_as_gxt example_gxt = Inr example_file"
    by (rule example_gxt_saved)
  have h2: "(0 :: nat) < length example_gxt"
    by (simp add: example_gxt_def)
  have h3: "sort_key table_sort example_gxt ! 0 = (MAIN, es)"
    by (simp add: example_gxt_def es_def)
  have h4: "distinct (map fst es)"
    by (simp add: es_def)
  from save_as_gxt_keys_ascending [of example_gxt example_file 0 MAIN es] h1 h2 h3 h4
  obtain K where
    a: "f_read example_file (12 + 12 * 0 + 8) 4 = le_bytes 4 K"
    and b: "f_read example_file (K + (if MAIN \<noteq> MAIN then 8 else 0)) 4 = [0x54, 0x4B, 0x45, 0x59]"
    and c: "f_read example_file (K + (if MAIN \<noteq> MAIN then 8 else 0) + 4) 4 =
              le_bytes 4 (length es * 8)"
    and d: "\<forall>j<length es.
              f_read example_file (K + (if MAIN \<noteq> MAIN then 8 else 0) + 8 + 8 * j + 4) 4 =
                le_bytes 4 (fst (sort es ! j))"
    and e: "sorted_wrt (<) (map fst (sort es))"
    by blast
  have "(0 :: nat) < length es"
    by (simp add: es_def)
  with d have "f_read example_file (K + (if MAIN \<noteq> MAIN then 8 else 0) + 8 + 8 * 0 + 4) 4 =
                le_bytes 4 (fst (sort es ! 0))"
    by blast
  then have d0: "f_read example_file (K + 8 + 4) 4 = le_bytes 4 1"
    by (simp add: srt)
  have "(1 :: nat) < length es"
    by (simp add: es_def)
  with d have "f_read example_file (K + (if MAIN \<noteq> MAIN then 8 else 0) + 8 + 8 * 1 + 4) 4 =
                le_bytes 4 (fst (sort es ! 1))"
    by blast
  then have d1: "f_read example_file (K + 8 + 8 + 4) 4 = le_bytes 4 2"
    by (simp add: srt)
  from a b c d0 d1 have
    "\<exists>key_block_offset.
      f_read example_file 20 4 = le_bytes 4 key_block_offset \<and>
      f_read example_file key_block_offset 4 = [0x54, 0x4B, 0x45, 0x59] \<and>
      f_read example_file (key_block_offset + 4) 4 = le_bytes 4 16 \<and>
      f_read example_file (key_block_offset + 8 + 4) 4 = le_bytes 4 1 \<and>
      f_read example_file (key_block_offset + 8 + 8 + 4) 4 = le_bytes 4 2"
    by (intro exI [of _ K]) (simp add: es_def)
  moreover from e have "sorted_wrt (<) [1 :: nat, 2]"
    by (simp add: srt)
  ultimately show ?thesis
    using h1 h2 h3 h4 by (simp only: es_def simp_thms)
qed

end
